theory Spec2Isabelle
  imports Complex_Main "HOL-Library.Sublist" "HOL-Library.Log_Nat"
begin

section \<open>Python primitives used by the program\<close>

text \<open>
  Python strings are modelled as \<open>string\<close>, one \<open>char\<close> per code point; the model covers
  the code points below 256. The confidence of an explanation and the scores of keyword
  retrieval are IEEE doubles, computed with the rounding of each operation. The score of
  an outcome category, a quotient of two small counts, is kept as the exact quotient, and
  a similarity delivered by the embedding library is a real number. Exceptions are values
  of \<open>py_error\<close>, returned on the left of a sum.
\<close>

datatype py_error = IndexError | TypeError | AttributeError | ZeroDivisionError | NameError

subsection \<open>Characters\<close>

definition isspace :: "char \<Rightarrow> bool" where
  \<comment> \<open>\<open>str.isspace\<close> on one code point: TAB..CR, FS..US, space, NEL, NBSP.\<close>
  "isspace c = (let n = of_char c :: nat in
     (9 \<le> n \<and> n \<le> 13) \<or> (28 \<le> n \<and> n \<le> 32) \<or> n = 133 \<or> n = 160)"

definition isdigit :: "char \<Rightarrow> bool" where
  \<comment> \<open>the decimal digits, what \<open>\d\<close> matches\<close>
  "isdigit c = (let n = of_char c :: nat in 48 \<le> n \<and> n \<le> 57)"

definition isupper :: "char \<Rightarrow> bool" where
  "isupper c = (let n = of_char c :: nat in
     (65 \<le> n \<and> n \<le> 90) \<or> (192 \<le> n \<and> n \<le> 222 \<and> n \<noteq> 215))"

definition islower :: "char \<Rightarrow> bool" where
  "islower c = (let n = of_char c :: nat in
     (97 \<le> n \<and> n \<le> 122) \<or> n = 170 \<or> n = 181 \<or> n = 186 \<or> (223 \<le> n \<and> n \<noteq> 247))"

definition isword :: "char \<Rightarrow> bool" where
  \<comment> \<open>what \<open>\w\<close> matches: alphanumeric code points and the underscore\<close>
  "isword c = (let n = of_char c :: nat in
     isdigit c \<or> isupper c \<or> islower c \<or> n = 95 \<or> n = 178 \<or> n = 179 \<or> n = 185
     \<or> (188 \<le> n \<and> n \<le> 190))"

fun lower_char :: "char \<Rightarrow> char" where
  \<comment> \<open>an upper-case letter and its lower-case form differ in the bit of value 32\<close>
  "lower_char (Char b0 b1 b2 b3 b4 b5 b6 b7) =
     (if isupper (Char b0 b1 b2 b3 b4 b5 b6 b7) then Char b0 b1 b2 b3 b4 True b6 b7
      else Char b0 b1 b2 b3 b4 b5 b6 b7)"

fun upper_char :: "char \<Rightarrow> char" where
  \<comment> \<open>the upper-case forms of code points 181, 223 and 255 lie outside the range of the
      model; 170 and 186 have none\<close>
  "upper_char (Char b0 b1 b2 b3 b4 b5 b6 b7) =
     (if islower (Char b0 b1 b2 b3 b4 b5 b6 b7) \<and> of_char (Char b0 b1 b2 b3 b4 b5 b6 b7) \<notin> {170, 181, 186, 223, 255 :: nat}
      then Char b0 b1 b2 b3 b4 False b6 b7
      else Char b0 b1 b2 b3 b4 b5 b6 b7)"

subsection \<open>Strings\<close>

definition lower :: "string \<Rightarrow> string" where
  \<comment> \<open>\<open>s.lower()\<close>\<close>
  "lower s = map lower_char s"

fun py_in :: "string \<Rightarrow> string \<Rightarrow> bool" where
  \<comment> \<open>\<open>a in b\<close> on strings: \<open>a\<close> occurs in \<open>b\<close> as a contiguous substring\<close>
  "py_in a [] = (a = [])"
| "py_in a (c # cs) = (prefix a (c # cs) \<or> py_in a cs)"

fun split_aux :: "string \<Rightarrow> string \<Rightarrow> string list" where
  "split_aux w [] = (if w = [] then [] else [w])"
| "split_aux w (c # cs) =
     (if isspace c then (if w = [] then split_aux [] cs else w # split_aux [] cs)
      else split_aux (w @ [c]) cs)"

definition py_split :: "string \<Rightarrow> string list" where
  \<comment> \<open>\<open>s.split()\<close>: the maximal runs of non-whitespace characters, in order\<close>
  "py_split s = split_aux [] s"

fun py_join :: "string \<Rightarrow> string list \<Rightarrow> string" where
  \<comment> \<open>\<open>sep.join(xs)\<close>\<close>
  "py_join sep [] = []"
| "py_join sep [x] = x"
| "py_join sep (x # y # ys) = x @ sep @ py_join sep (y # ys)"

definition slice_to :: "'a list \<Rightarrow> int \<Rightarrow> 'a list" where
  \<comment> \<open>\<open>xs[:k]\<close>: a negative \<open>k\<close> counts from the end\<close>
  "slice_to xs k = (if 0 \<le> k then take (nat k) xs else take (nat (int (length xs) + k)) xs)"

subsection \<open>Floating point\<close>

text \<open>
  A Python \<open>float\<close> is an IEEE 754 binary64 number. A finite double is modelled by the
  rational number it denotes, and every floating-point operation gives the double nearest
  to the exact result, a tie going to the even mantissa. \<open>round_double\<close> is that
  rounding: the exponent is that of the binade of the argument, not below that of the
  subnormal numbers, and the mantissa has 53 bits. Results beyond the largest finite
  double are outside the model.
\<close>

definition round_half_even :: "rat \<Rightarrow> int" where
  \<comment> \<open>the nearest integer, a tie going to the even one\<close>
  "round_half_even x =
     (let n = \<lfloor>x\<rfloor>; r = x - of_int n in
      if r < 1 / 2 then n else if r > 1 / 2 then n + 1 else if even n then n else n + 1)"

definition binade :: "rat \<Rightarrow> int" where
  \<comment> \<open>for \<open>x \<noteq> 0\<close> the integer \<open>e\<close> with \<open>2 ^ e \<le> \<bar>x\<bar> < 2 ^ (e + 1)\<close>, from the bit lengths of the
      numerator and the denominator\<close>
  "binade x =
     (case quotient_of \<bar>x\<bar> of (p, q) \<Rightarrow>
        (let e = bitlen p - bitlen q in
         if of_int p < of_int q * power_int (2::rat) e then e - 1 else e))"

definition round_double :: "rat \<Rightarrow> rat" where
  "round_double x =
     (if x = 0 then 0
      else (let e = max (binade x) (- 1022); ulp = power_int 2 (e - 52)
            in of_int (round_half_even (x / ulp)) * ulp))"

definition fadd :: "rat \<Rightarrow> rat \<Rightarrow> rat" where
  \<comment> \<open>\<open>a + b\<close> on floats\<close>
  "fadd a b = round_double (a + b)"

definition fmul :: "rat \<Rightarrow> rat \<Rightarrow> rat" where
  \<comment> \<open>\<open>a * b\<close> on floats\<close>
  "fmul a b = round_double (a * b)"

definition int_truediv :: "nat \<Rightarrow> nat \<Rightarrow> rat" where
  \<comment> \<open>\<open>m / n\<close> on two non-negative integers, \<open>n\<close> not 0: the double nearest to the quotient\<close>
  "int_truediv m n = round_double (of_nat m / of_nat n)"

definition float_of_nat :: "nat \<Rightarrow> rat" where
  \<comment> \<open>the conversion of a non-negative integer that meets a float in an operation\<close>
  "float_of_nat n = round_double (of_nat n)"

subsection \<open>Loops that may raise\<close>

fun fold_err :: "('a \<Rightarrow> 's \<Rightarrow> py_error + 's) \<Rightarrow> 'a list \<Rightarrow> 's \<Rightarrow> py_error + 's" where
  \<comment> \<open>a \<open>for\<close> loop whose body may raise: the first exception ends the loop\<close>
  "fold_err f [] s = Inr s"
| "fold_err f (x # xs) s = (case f x s of Inl e \<Rightarrow> Inl e | Inr s' \<Rightarrow> fold_err f xs s')"

subsection \<open>Regular expressions\<close>

text \<open>
  The fragment of \<open>re\<close> that the program's patterns use. A pattern is a sequence of
  segments, each either plain or a capturing group; inside a segment there are literals,
  character classes, greedy \<open>*\<close> and \<open>+\<close> on a class, concatenation, alternation and the
  greedy \<open>?\<close>. \<open>rmatch r s\<close> lists the suffixes of \<open>s\<close> left after each way of matching
  \<open>r\<close> at the start of \<open>s\<close>, in the order in which the backtracking matcher tries them.
\<close>

datatype catom = CDigit | CSpace | CWord | CChar char

fun in_catom :: "catom \<Rightarrow> char \<Rightarrow> bool" where
  "in_catom CDigit c = isdigit c"
| "in_catom CSpace c = isspace c"
| "in_catom CWord c = isword c"
| "in_catom (CChar d) c = (c = d)"

definition in_class :: "catom list \<Rightarrow> char \<Rightarrow> bool" where
  "in_class cl c = list_ex (\<lambda>a. in_catom a c) cl"

datatype re = Lit string | Cls "catom list" | StarC "catom list" | PlusC "catom list"
  | Cat re re | Alt re re | Opt re

fun rmatch :: "re \<Rightarrow> string \<Rightarrow> string list" where
  "rmatch (Lit l) s = (if prefix l s then [drop (length l) s] else [])"
| "rmatch (Cls cl) s = (case s of [] \<Rightarrow> [] | c # cs \<Rightarrow> if in_class cl c then [cs] else [])"
| "rmatch (StarC cl) s =
     map (\<lambda>k. drop k s) (rev [0 ..< Suc (length (takeWhile (in_class cl) s))])"
| "rmatch (PlusC cl) s =
     map (\<lambda>k. drop k s) (rev [1 ..< Suc (length (takeWhile (in_class cl) s))])"
| "rmatch (Cat a b) s = concat (map (rmatch b) (rmatch a s))"
| "rmatch (Alt a b) s = rmatch a s @ rmatch b s"
| "rmatch (Opt a) s = rmatch a s @ [s]"

datatype seg = Plain re | Capture re

fun match_segs :: "seg list \<Rightarrow> string \<Rightarrow> string list \<Rightarrow> (string \<times> string list) list" where
  "match_segs [] s gs = [(s, gs)]"
| "match_segs (Plain r # p) s gs = concat (map (\<lambda>s'. match_segs p s' gs) (rmatch r s))"
| "match_segs (Capture r # p) s gs =
     concat (map (\<lambda>s'. match_segs p s' (gs @ [take (length s - length s') s])) (rmatch r s))"

fun re_search :: "seg list \<Rightarrow> string \<Rightarrow> (string \<times> string list) option" where
  \<comment> \<open>\<open>re.search(p, s)\<close>: the leftmost match, as \<open>(group(0), groups())\<close>\<close>
  "re_search p [] =
     (case match_segs p [] [] of [] \<Rightarrow> None | (rest, gs) # _ \<Rightarrow> Some ([], gs))"
| "re_search p (c # cs) =
     (case match_segs p (c # cs) [] of
        [] \<Rightarrow> re_search p cs
      | (rest, gs) # _ \<Rightarrow> Some (take (length (c # cs) - length rest) (c # cs), gs))"

fun ncaptures :: "seg list \<Rightarrow> nat" where
  \<comment> \<open>the number of capturing groups of a pattern\<close>
  "ncaptures [] = 0"
| "ncaptures (Plain r # p) = ncaptures p"
| "ncaptures (Capture r # p) = Suc (ncaptures p)"

section \<open>Data model\<close>

text \<open>
  The dataclasses of the program, with fields of the annotated types. The field \<open>text\<close>
  of a turn is named \<open>text'\<close> here. The metadata dictionary maps strings to strings; a
  key that is absent is \<open>None\<close> in the map.
\<close>

record ConversationTurn =
  turn_id :: int
  speaker :: string
  text' :: string
  timestamp :: "string option"

record ConversationTranscript =
  transcript_id :: string
  domain :: string
  outcome :: string
  turns :: "ConversationTurn list"
  metadata :: "string \<rightharpoonup> string"

definition get_full_text :: "ConversationTranscript \<Rightarrow> string" where
  "get_full_text t = py_join '' '' (map text' (turns t))"

record CausalExplanation =
  query :: string
  primary_cause :: string
  supporting_factors :: "string list"
  evidence_spans :: "(int \<times> string) list"
  confidence :: rat
  relevant_transcript_ids :: "string list"
  timestamp_expl :: string

record history_entry =
  h_query :: string
  h_explanation :: string
  h_timestamp :: string

record CausalAnalyzer =
  history :: "history_entry list"

section \<open>Causal analyzer\<close>

definition empty_explanation :: "string \<Rightarrow> string \<Rightarrow> CausalExplanation" where
  \<comment> \<open>\<open>now\<close> is the clock reading \<open>datetime.now().isoformat()\<close>\<close>
  "empty_explanation now q =
     \<lparr> query = q,
       primary_cause = ''No relevant conversations found for analysis'',
       supporting_factors = [],
       evidence_spans = [],
       confidence = round_double (3 / 10),
       relevant_transcript_ids = [],
       timestamp_expl = now \<rparr>"

definition append_if :: "bool \<Rightarrow> 'a \<Rightarrow> 'a list \<Rightarrow> 'a list" where
  \<comment> \<open>\<open>if cond: xs.append(x)\<close>\<close>
  "append_if cond x xs = (if cond then xs @ [x] else xs)"

definition error_code_re :: "seg list" where
  \<comment> \<open>\<open>error\s*(?:code\s*)?(\d+)\<close>\<close>
  "error_code_re =
     [Plain (Cat (Lit ''error'') (Cat (StarC [CSpace]) (Opt (Cat (Lit ''code'') (StarC [CSpace]))))),
      Capture (PlusC [CDigit])]"

definition amount_re :: "seg list" where
  \<comment> \<open>\<open>\$[\d,]+\.?\d*\<close>\<close>
  "amount_re =
     [Plain (Cat (Lit ''$'') (Cat (PlusC [CDigit, CChar (CHR '','')])
        (Cat (Opt (Lit ''.'')) (StarC [CDigit]))))]"

definition join_or :: "string \<Rightarrow> string \<Rightarrow> string list \<Rightarrow> string" where
  \<comment> \<open>\<open>if causes: return prefix + "; ".join(causes)\<close>, else the fallback\<close>
  "join_or pre fallback causes = (if causes \<noteq> [] then pre @ py_join ''; '' causes else fallback)"

definition match_group :: "string \<times> string list \<Rightarrow> nat \<Rightarrow> py_error + string" where
  \<comment> \<open>\<open>m.group(i)\<close>: group 0 is the whole match, a group the pattern does not have is an
      \<open>IndexError\<close>\<close>
  "match_group m i =
     (if i = 0 then Inr (fst m)
      else if i \<le> length (snd m) then Inr (snd m ! (i - 1))
      else Inl IndexError)"

definition escalation_cause :: "string \<Rightarrow> py_error + string" where
  "escalation_cause text =
     (let causes = [];
          causes = append_if (py_in ''three weeks'' text \<or> py_in ''weeks'' text)
                     ''prolonged issue duration (multiple weeks)'' causes;
          causes = append_if (py_in ''multiple'' text \<or> py_in ''several'' text \<or> py_in ''repeated'' text)
                     ''multiple failed resolution attempts'' causes;
          causes = append_if (py_in ''frustrated'' text \<or> py_in ''frustration'' text)
                     ''accumulated customer frustration'' causes;
          causes = append_if (py_in ''nobody'' text \<or> py_in ''no one'' text)
                     ''previous agents unable to resolve'' causes
      in case re_search error_code_re text of
           None \<Rightarrow>
             Inr (join_or ''Customer escalated due to: ''
                    ''Customer requested escalation to supervisor'' causes)
         | Some error_match \<Rightarrow>
             (case match_group error_match 1 of
                Inl e \<Rightarrow> Inl e
              | Inr code \<Rightarrow>
                  Inr (join_or ''Customer escalated due to: ''
                         ''Customer requested escalation to supervisor''
                         (causes @ [''unresolved error code '' @ code]))))"

definition fraud_cause :: "string \<Rightarrow> string" where
  "fraud_cause text =
     (let causes = [];
          causes = (case re_search amount_re text of
                      None \<Rightarrow> causes
                    | Some amount_match \<Rightarrow>
                        causes @ [''unauthorized charge of '' @ fst amount_match]);
          causes = (if py_in ''new york'' (lower text)
                    then causes @ [''transaction in New York (customer never visited)'']
                    else if py_in ''different location'' text
                    then causes @ [''transaction from different location'']
                    else causes);
          causes = append_if (py_in ''fraud alert'' text)
                     ''automatic fraud detection triggered'' causes;
          causes = append_if (py_in ''blocked'' text \<or> py_in ''block'' text)
                     ''card blocked for security'' causes
      in join_or ''Fraud detected: '' ''Fraudulent transaction identified and addressed'' causes)"

definition delivery_cause :: "string \<Rightarrow> string" where
  "delivery_cause text =
     (let causes = [];
          causes = append_if (py_in ''shows delivered'' text \<or> py_in ''marked delivered'' text)
                     ''package marked delivered in tracking'' causes;
          causes = append_if (py_in ''never received'' text \<or> py_in ''not there'' text)
                     ''customer did not receive package'' causes;
          causes = append_if (py_in ''camera'' text \<or> py_in ''neighbor'' text)
                     ''customer verified non-delivery'' causes;
          causes = append_if (py_in ''wrong address'' text)
                     ''possible wrong address delivery'' causes
      in join_or ''Delivery issue: '' ''Package delivery discrepancy reported'' causes)"

definition generate_primary_cause ::
  "string \<Rightarrow> ConversationTranscript list \<Rightarrow> py_error + string" where
  "generate_primary_cause outc transcripts =
     (let text = lower (py_join '' '' (map get_full_text transcripts)) in
      case transcripts of
        [] \<Rightarrow> Inl IndexError
      | t0 # _ \<Rightarrow>
          (let reason = (case metadata t0 ''reason_for_call'' of None \<Rightarrow> '''' | Some r \<Rightarrow> r) in
           if py_in ''escalation'' outc then escalation_cause text
           else if py_in ''fraud'' outc then Inr (fraud_cause text)
           else if py_in ''delivery'' outc then Inr (delivery_cause text)
           else if reason \<noteq> [] then Inr (''Issue identified: '' @ reason)
           else Inr (''Issue type: '' @ outc)))"

definition extract_supporting_factors ::
  "string \<Rightarrow> ConversationTranscript list \<Rightarrow> string list" where
  "extract_supporting_factors outc transcripts =
     (let text = lower (py_join '' '' (map get_full_text transcripts));
          factors = [];
          factors = append_if (py_in ''three weeks'' text \<or> py_in ''weeks'' text)
                      ''Extended duration: issue persisted for weeks'' factors;
          factors = append_if (py_in ''yesterday'' text \<or> py_in ''today'' text)
                      ''Recent occurrence: within last 24 hours'' factors;
          factors = append_if (py_in ''multiple'' text \<or> py_in ''several'' text)
                      ''Multiple occurrences or attempts documented'' factors;
          factors = append_if (py_in ''repeated'' text \<or> py_in ''again'' text)
                      ''Repeated failures noted'' factors;
          factors = append_if (py_in ''frustrated'' text \<or> py_in ''frustration'' text)
                      ''Customer expressed frustration'' factors;
          factors = append_if (py_in ''upset'' text \<or> py_in ''angry'' text)
                      ''Customer emotional distress'' factors;
          factors = append_if (py_in ''checked'' text \<or> py_in ''verified'' text)
                      ''Customer performed verification steps'' factors;
          factors = append_if (py_in ''supervisor'' text \<or> py_in ''manager'' text)
                      ''Escalation to supervisor requested'' factors;
          factors = append_if (py_in ''expedited'' text \<or> py_in ''immediately'' text)
                      ''Agent provided swift response'' factors;
          factors = append_if (py_in ''blocked'' text \<or> py_in ''reversed'' text)
                      ''Immediate security action taken'' factors
      in slice_to factors 6)"

definition key_indicators :: "string list" where
  "key_indicators = [''escalate'', ''supervisor'', ''fraud'', ''unauthorized'',
                     ''delivered'', ''error'', ''frustrated'', ''weeks'', ''multiple'']"

definition query_terms_of :: "string \<Rightarrow> string list" where
  \<comment> \<open>\<open>set(w.lower() for w in query.split() if len(w) > 3)\<close>, its elements listed once each\<close>
  "query_terms_of q = remdups (map lower (filter (\<lambda>w. length w > 3) (py_split q)))"

definition display :: "ConversationTurn \<Rightarrow> string" where
  \<comment> \<open>\<open>turn.text[:120] + "..." if len(turn.text) > 120 else turn.text\<close>\<close>
  "display turn =
     (if length (text' turn) > 120 then slice_to (text' turn) 120 @ ''...'' else text' turn)"

definition evidence_turn ::
  "string list \<Rightarrow> ConversationTurn \<Rightarrow> (int \<times> string) list \<Rightarrow> (int \<times> string) list" where
  \<comment> \<open>the body of the inner loop of \<open>_extract_evidence\<close>\<close>
  "evidence_turn query_terms turn evidence =
     (let text_lower = lower (text' turn);
          query_matches = length (filter (\<lambda>t. py_in t text_lower) query_terms);
          indicator_matches = length (filter (\<lambda>k. py_in k text_lower) key_indicators)
      in if (query_matches > 0 \<or> indicator_matches > 0) \<and> length evidence < 4
         then evidence @ [(turn_id turn, ''['' @ speaker turn @ ''] '' @ display turn)]
         else evidence)"

definition extract_evidence ::
  "string \<Rightarrow> ConversationTranscript list \<Rightarrow> (int \<times> string) list" where
  "extract_evidence q transcripts =
     (let query_terms = query_terms_of q in
      fold (\<lambda>transcript evidence. fold (evidence_turn query_terms) (turns transcript) evidence)
        transcripts [])"

definition calculate_confidence :: "ConversationTranscript list \<Rightarrow> string list \<Rightarrow> rat" where
  \<comment> \<open>the literals \<open>0.6\<close>, \<open>0.05\<close>, ... are the doubles nearest to these decimals\<close>
  "calculate_confidence transcripts factors =
     (let c = round_double (6 / 10);
          c = fadd c (min (fmul (float_of_nat (length transcripts)) (round_double (5 / 100)))
                          (round_double (15 / 100)));
          c = fadd c (min (fmul (float_of_nat (length factors)) (round_double (3 / 100)))
                          (round_double (15 / 100)));
          c = (if (case transcripts of
                     [] \<Rightarrow> False
                   | t0 # _ \<Rightarrow> (case metadata t0 ''reason_for_call'' of
                                 None \<Rightarrow> False | Some r \<Rightarrow> r \<noteq> []))
               then fadd c (round_double (1 / 10)) else c)
      in min (max c (round_double (6 / 10))) (round_double (95 / 100)))"

definition analyze ::
  "CausalAnalyzer \<Rightarrow> string \<Rightarrow> string \<Rightarrow> ConversationTranscript list \<Rightarrow> bool
     \<Rightarrow> py_error + (CausalExplanation \<times> CausalAnalyzer)" where
  \<comment> \<open>\<open>self.analyze(query, transcripts, include_history)\<close> at clock reading \<open>now\<close>;
      the result is the explanation and the analyzer afterwards\<close>
  "analyze self now q transcripts include_history =
     (case transcripts of
        [] \<Rightarrow> Inr (empty_explanation now q, self)
      | t0 # _ \<Rightarrow>
          (let outc = outcome t0 in
           case generate_primary_cause outc transcripts of
             Inl e \<Rightarrow> Inl e
           | Inr cause \<Rightarrow>
               (let factors = extract_supporting_factors outc transcripts;
                    evidence = extract_evidence q transcripts;
                    conf = calculate_confidence transcripts factors;
                    explanation =
                      \<lparr> query = q, primary_cause = cause, supporting_factors = factors,
                        evidence_spans = evidence, confidence = conf,
                        relevant_transcript_ids = map transcript_id transcripts,
                        timestamp_expl = now \<rparr>
                in Inr (explanation,
                        if include_history
                        then self\<lparr> history := history self @
                               [\<lparr> h_query = q, h_explanation = cause,
                                  h_timestamp = timestamp_expl explanation \<rparr>] \<rparr>
                        else self))))"

section \<open>Conversation retriever\<close>

text \<open>
  A Python \<open>dict\<close> is an association list in insertion order, its keys distinct. Storing
  under a key that is present replaces the value in place; a new key goes to the end.

  The embedding model belongs to a third-party library. In \<open>retrieve\<close> it is a pair of
  parameters: \<open>encode\<close> stands for \<open>self.model.encode(text, convert_to_tensor=True)\<close> and
  \<open>cos_sim\<close> for \<open>util.pytorch_cos_sim(a, b)[0][0].item()\<close>; either may raise. An
  embedding is a list of reals.
\<close>

definition dict_set :: "('k \<times> 'v) list \<Rightarrow> 'k \<Rightarrow> 'v \<Rightarrow> ('k \<times> 'v) list" where
  \<comment> \<open>\<open>d[k] = v\<close>\<close>
  "dict_set d k v =
     (if k \<in> set (map fst d) then map (\<lambda>(k', v'). if k' = k then (k', v) else (k', v')) d
      else d @ [(k, v)])"

definition sorted_reverse :: "('a \<Rightarrow> 'b::linordered_idom) \<Rightarrow> 'a list \<Rightarrow> 'a list" where
  \<comment> \<open>\<open>sorted(xs, key=key, reverse=True)\<close>: a stable sort into descending order of the key,
      here insertion sort on the negated key\<close>
  "sorted_reverse key xs = sort_key (\<lambda>x. - key x) xs"

record ConversationRetriever =
  conversations_by_id :: "(string \<times> ConversationTranscript) list"
  embeddings :: "(string \<times> real list) list"
  has_embeddings :: bool

definition query_words_of :: "string \<Rightarrow> string list" where
  \<comment> \<open>\<open>[w for w in query_lower.split() if len(w) > 2]\<close>\<close>
  "query_words_of query_lower = filter (\<lambda>w. length w > 2) (py_split query_lower)"

definition keyword_score :: "string \<Rightarrow> ConversationTranscript \<Rightarrow> rat" where
  \<comment> \<open>the body of the loop of \<open>_retrieve_keyword\<close>: the score of one transcript. The
      score starts as the integer 0; additions of integers to it are exact, and so is
      \<open>fadd\<close> on the sums of 50, 50, 50 and 30.\<close>
  "keyword_score query_lower transcript =
     (let score = 0;
          all_text = lower (get_full_text transcript);
          reason = lower (case metadata transcript ''reason_for_call'' of
                            None \<Rightarrow> '''' | Some r \<Rightarrow> r);
          all_content = all_text @ '' '' @ reason;
          query_words = query_words_of query_lower;
          score = (if query_words \<noteq> []
                   then (let matches = length (filter (\<lambda>w. py_in w all_content) query_words)
                         in fmul (int_truediv matches (length query_words)) 100)
                   else score);
          score = (if py_in ''escalat'' query_lower \<and>
                      (py_in ''escalat'' all_content \<or> py_in ''supervisor'' all_content)
                   then fadd score 50 else score);
          score = (if py_in ''fraud'' query_lower \<and> py_in ''fraud'' all_content
                   then fadd score 50 else score);
          score = (if py_in ''delivery'' query_lower \<and> py_in ''delivery'' all_content
                   then fadd score 50 else score);
          score = (if py_in ''error'' query_lower \<and> py_in ''error'' all_content
                   then fadd score 30 else score)
      in score)"

definition retrieve_keyword :: "ConversationRetriever \<Rightarrow> string \<Rightarrow> int \<Rightarrow> string list" where
  "retrieve_keyword self q top_k =
     (let query_lower = lower q;
          scores = fold (\<lambda>(tid, transcript) scores.
                           dict_set scores tid (keyword_score query_lower transcript))
                     (conversations_by_id self) [];
          sorted_ids = sorted_reverse snd scores;
          result = map fst (filter (\<lambda>(tid, score). score > 0) (slice_to sorted_ids top_k))
      in if result \<noteq> [] then result
         else slice_to (map fst (conversations_by_id self)) top_k)"

definition retrieve_semantic ::
  "(string \<Rightarrow> py_error + real list) \<Rightarrow> (real list \<Rightarrow> real list \<Rightarrow> py_error + real)
     \<Rightarrow> ConversationRetriever \<Rightarrow> string \<Rightarrow> int \<Rightarrow> string list" where
  \<comment> \<open>any exception inside the \<open>try\<close> block is caught, and keyword retrieval answers\<close>
  "retrieve_semantic encode cos_sim self q top_k =
     (case (case encode q of
              Inl e \<Rightarrow> Inl e
            | Inr query_embedding \<Rightarrow>
                fold_err (\<lambda>(tid, embedding) scores.
                            case cos_sim query_embedding embedding of
                              Inl e \<Rightarrow> Inl e
                            | Inr similarity \<Rightarrow> Inr (dict_set scores tid similarity))
                  (embeddings self) []) of
        Inl e \<Rightarrow> retrieve_keyword self q top_k
      | Inr scores \<Rightarrow> map fst (slice_to (sorted_reverse snd scores) top_k))"

definition retrieve ::
  "(string \<Rightarrow> py_error + real list) \<Rightarrow> (real list \<Rightarrow> real list \<Rightarrow> py_error + real)
     \<Rightarrow> ConversationRetriever \<Rightarrow> string \<Rightarrow> int \<Rightarrow> string list" where
  "retrieve encode cos_sim self q top_k =
     (if has_embeddings self \<and> embeddings self \<noteq> []
      then retrieve_semantic encode cos_sim self q top_k
      else retrieve_keyword self q top_k)"


section \<open>Pattern analyzer\<close>

text \<open>
  The pattern tables are Python dictionaries with string keys, listed here in declaration
  order. Each regular expression is given in the syntax of the matcher above; the comment
  beside it is the pattern of the source.
\<close>

fun seq :: "re list \<Rightarrow> re" where
  \<comment> \<open>concatenation of several expressions\<close>
  "seq [] = Lit []"
| "seq [r] = r"
| "seq (r # rs) = Cat r (seq rs)"

abbreviation ws1 :: re where "ws1 \<equiv> PlusC [CSpace]"
abbreviation ws0 :: re where "ws0 \<equiv> StarC [CSpace]"
abbreviation digits1 :: re where "digits1 \<equiv> PlusC [CDigit]"
abbreviation apostrophe :: re where "apostrophe \<equiv> Lit [CHR 0x27]"

definition outcome_patterns :: "(string \<times> seg list list) list" where
  \<open>outcome_patterns =
   [(''escalation'',
      [ \<comment> \<open>\<open>speak\s+(?:to|with)\s+(?:a\s+)?supervisor\<close>\<close>
        [Plain (seq [Lit ''speak'', ws1, Alt (Lit ''to'') (Lit ''with''), ws1,
                     Opt (seq [Lit ''a'', ws1]), Lit ''supervisor''])],
        \<comment> \<open>\<open>escalat(?:e|ed|ing)\<close>\<close>
        [Plain (seq [Lit ''escalat'', Alt (Lit ''e'') (Alt (Lit ''ed'') (Lit ''ing''))])],
        \<comment> \<open>\<open>talk\s+to\s+(?:a\s+)?manager\<close>\<close>
        [Plain (seq [Lit ''talk'', ws1, Lit ''to'', ws1, Opt (seq [Lit ''a'', ws1]),
                     Lit ''manager''])],
        \<comment> \<open>\<open>file\s+(?:a\s+)?complaint\<close>\<close>
        [Plain (seq [Lit ''file'', ws1, Opt (seq [Lit ''a'', ws1]), Lit ''complaint''])],
        \<comment> \<open>\<open>(?:been|calling)\s+for\s+(?:\d+\s+)?weeks?\<close>\<close>
        [Plain (seq [Alt (Lit ''been'') (Lit ''calling''), ws1, Lit ''for'', ws1,
                     Opt (seq [digits1, ws1]), Lit ''week'', Opt (Lit ''s'')])] ]),
    (''fraud'',
      [ \<comment> \<open>\<open>fraud\s+alert\<close>\<close>
        [Plain (seq [Lit ''fraud'', ws1, Lit ''alert''])],
        \<comment> \<open>\<open>unauthorized\s+(?:charge|transaction|purchase)\<close>\<close>
        [Plain (seq [Lit ''unauthorized'', ws1,
                     Alt (Lit ''charge'') (Alt (Lit ''transaction'') (Lit ''purchase''))])],
        \<comment> \<open>\<open>didn\'?t\s+make\s+(?:this|that)\s+purchase\<close>\<close>
        [Plain (seq [Lit ''didn'', Opt apostrophe, Lit ''t'', ws1, Lit ''make'', ws1,
                     Alt (Lit ''this'') (Lit ''that''), ws1, Lit ''purchase''])],
        \<comment> \<open>\<open>never\s+been\s+to\<close>\<close>
        [Plain (seq [Lit ''never'', ws1, Lit ''been'', ws1, Lit ''to''])],
        \<comment> \<open>\<open>block(?:ed|ing)?\s+(?:my\s+)?card\<close>\<close>
        [Plain (seq [Lit ''block'', Opt (Alt (Lit ''ed'') (Lit ''ing'')), ws1,
                     Opt (seq [Lit ''my'', ws1]), Lit ''card''])] ]),
    (''delivery_issue'',
      [ \<comment> \<open>\<open>shows?\s+(?:as\s+)?delivered\<close>\<close>
        [Plain (seq [Lit ''show'', Opt (Lit ''s''), ws1, Opt (seq [Lit ''as'', ws1]),
                     Lit ''delivered''])],
        \<comment> \<open>\<open>never\s+received\<close>\<close>
        [Plain (seq [Lit ''never'', ws1, Lit ''received''])],
        \<comment> \<open>\<open>package\s+(?:is\s+)?missing\<close>\<close>
        [Plain (seq [Lit ''package'', ws1, Opt (seq [Lit ''is'', ws1]), Lit ''missing''])],
        \<comment> \<open>\<open>not\s+(?:at\s+)?(?:my\s+)?door\<close>\<close>
        [Plain (seq [Lit ''not'', ws1, Opt (seq [Lit ''at'', ws1]),
                     Opt (seq [Lit ''my'', ws1]), Lit ''door''])],
        \<comment> \<open>\<open>wrong\s+address\<close>\<close>
        [Plain (seq [Lit ''wrong'', ws1, Lit ''address''])] ]),
    (''resolution'',
      [ \<comment> \<open>\<open>send(?:ing)?\s+(?:a\s+)?replacement\<close>\<close>
        [Plain (seq [Lit ''send'', Opt (Lit ''ing''), ws1, Opt (seq [Lit ''a'', ws1]),
                     Lit ''replacement''])],
        \<comment> \<open>\<open>(?:full\s+)?refund\<close>\<close>
        [Plain (seq [Opt (seq [Lit ''full'', ws1]), Lit ''refund''])],
        \<comment> \<open>\<open>expedited\s+(?:shipping|delivery)\<close>\<close>
        [Plain (seq [Lit ''expedited'', ws1, Alt (Lit ''shipping'') (Lit ''delivery'')])],
        \<comment> \<open>\<open>no\s+(?:extra\s+)?charge\<close>\<close>
        [Plain (seq [Lit ''no'', ws1, Opt (seq [Lit ''extra'', ws1]), Lit ''charge''])],
        \<comment> \<open>\<open>investigation\s+(?:started|initiated)\<close>\<close>
        [Plain (seq [Lit ''investigation'', ws1, Alt (Lit ''started'') (Lit ''initiated'')])] ])]\<close>

definition causal_patterns :: "(string \<times> (seg list \<times> string) list) list" where
  \<open>causal_patterns =
   [(''temporal'',
      [ \<comment> \<open>\<open>for\s+(\d+)\s+weeks?\<close>\<close>
        ([Plain (seq [Lit ''for'', ws1]), Capture digits1,
          Plain (seq [ws1, Lit ''week'', Opt (Lit ''s'')])], ''Duration: {} week(s)''),
        \<comment> \<open>\<open>for\s+(\d+)\s+days?\<close>\<close>
        ([Plain (seq [Lit ''for'', ws1]), Capture digits1,
          Plain (seq [ws1, Lit ''day'', Opt (Lit ''s'')])], ''Duration: {} day(s)''),
        \<comment> \<open>\<open>since\s+(\w+day)\<close>\<close>
        ([Plain (seq [Lit ''since'', ws1]), Capture (seq [PlusC [CWord], Lit ''day''])],
         ''Since {}''),
        \<comment> \<open>\<open>yesterday\<close>\<close>
        ([Plain (Lit ''yesterday'')], ''Occurred yesterday''),
        \<comment> \<open>\<open>this\s+morning\<close>\<close>
        ([Plain (seq [Lit ''this'', ws1, Lit ''morning''])], ''Occurred this morning'') ]),
    (''repetition'',
      [ \<comment> \<open>\<open>(\d+)\s+(?:times?|attempts?)\<close>\<close>
        ([Capture digits1,
          Plain (seq [ws1, Alt (seq [Lit ''time'', Opt (Lit ''s'')])
                               (seq [Lit ''attempt'', Opt (Lit ''s'')])])],
         ''{} previous attempts''),
        \<comment> \<open>\<open>multiple\s+(?:times?|calls?)\<close>\<close>
        ([Plain (seq [Lit ''multiple'', ws1,
                      Alt (seq [Lit ''time'', Opt (Lit ''s'')])
                          (seq [Lit ''call'', Opt (Lit ''s'')])])], ''Multiple occurrences''),
        \<comment> \<open>\<open>(?:keep|keeps)\s+(?:happening|failing)\<close>\<close>
        ([Plain (seq [Alt (Lit ''keep'') (Lit ''keeps''), ws1,
                      Alt (Lit ''happening'') (Lit ''failing'')])], ''Recurring issue''),
        \<comment> \<open>\<open>again\s+and\s+again\<close>\<close>
        ([Plain (seq [Lit ''again'', ws1, Lit ''and'', ws1, Lit ''again''])],
         ''Repeated issue'') ]),
    (''emotional'',
      [ \<comment> \<open>\<open>(?:very\s+)?frustrated\<close>\<close>
        ([Plain (seq [Opt (seq [Lit ''very'', ws1]), Lit ''frustrated''])],
         ''Customer frustration''),
        \<comment> \<open>\<open>(?:very\s+)?upset\<close>\<close>
        ([Plain (seq [Opt (seq [Lit ''very'', ws1]), Lit ''upset''])], ''Customer upset''),
        \<comment> \<open>\<open>unacceptable\<close>\<close>
        ([Plain (Lit ''unacceptable'')], ''Expressed unacceptability''),
        \<comment> \<open>\<open>wasted?\s+(?:my\s+)?time\<close>\<close>
        ([Plain (seq [Lit ''waste'', Opt (Lit ''d''), ws1, Opt (seq [Lit ''my'', ws1]),
                      Lit ''time''])], ''Perceived time waste'') ]),
    (''technical'',
      [ \<comment> \<open>\<open>error\s+(?:code\s+)?(\d+)\<close>\<close>
        ([Plain (seq [Lit ''error'', ws1, Opt (seq [Lit ''code'', ws1])]), Capture digits1],
         ''Error code {}''),
        \<comment> \<open>\<open>(?:app|system)\s+(?:crash|fail)\<close>\<close>
        ([Plain (seq [Alt (Lit ''app'') (Lit ''system''), ws1,
                      Alt (Lit ''crash'') (Lit ''fail'')])], ''System failure''),
        \<comment> \<open>\<open>login\s+fail\<close>\<close>
        ([Plain (seq [Lit ''login'', ws1, Lit ''fail''])], ''Authentication issue''),
        \<comment> \<open>\<open>can\'?t\s+(?:access|log\s*in)\<close>\<close>
        ([Plain (seq [Lit ''can'', Opt apostrophe, Lit ''t'', ws1,
                      Alt (Lit ''access'') (seq [Lit ''log'', ws0, Lit ''in''])])],
         ''Access problem'') ])]\<close>

fun title_aux :: "bool \<Rightarrow> string \<Rightarrow> string" where
  "title_aux prev [] = []"
| "title_aux prev (c # cs) =
     (if isupper c \<or> islower c
      then (if prev then lower_char c else upper_char c) # title_aux True cs
      else c # title_aux False cs)"

definition py_title :: "string \<Rightarrow> string" where
  \<comment> \<open>\<open>s.title()\<close>: a cased character is upper-cased unless a cased character precedes it\<close>
  "py_title s = title_aux False s"

fun py_format :: "string \<Rightarrow> string list \<Rightarrow> py_error + string" where
  \<comment> \<open>\<open>template.format(*args)\<close> for templates whose only fields are \<open>{}\<close>: the fields take
      the arguments in order, surplus arguments are ignored, a missing one is an
      \<open>IndexError\<close>. Braces in any other arrangement are outside the model.\<close>
  "py_format [] args = Inr []"
| "py_format [c] args = Inr [c]"
| "py_format (c # d # cs) args =
     (if c = CHR ''{'' \<and> d = CHR ''}''
      then (case args of
              [] \<Rightarrow> Inl IndexError
            | a # args' \<Rightarrow> map_sum id (\<lambda>r. a @ r) (py_format cs args'))
      else map_sum id (\<lambda>r. c # r) (py_format (d # cs) args))"

definition count_matches :: "seg list list \<Rightarrow> string \<Rightarrow> nat" where
  \<comment> \<open>\<open>sum(1 for p in patterns if re.search(p, text_lower))\<close>\<close>
  "count_matches patterns text_lower =
     length (filter (\<lambda>p. re_search p text_lower \<noteq> None) patterns)"

fun max_item :: "(string \<times> real) \<Rightarrow> (string \<times> real) list \<Rightarrow> string \<times> real" where
  \<comment> \<open>\<open>max(scores, key=scores.get)\<close> over the items of \<open>scores\<close>: the running maximum
      changes only for a strictly greater value\<close>
  "max_item best [] = best"
| "max_item best (kv # rest) = max_item (if snd kv > snd best then kv else best) rest"

definition classify_outcome_with ::
  "(string \<times> seg list list) list \<Rightarrow> string \<Rightarrow> py_error + (string \<times> real)" where
  \<comment> \<open>\<open>classify_outcome\<close> of an analyzer whose \<open>outcome_patterns\<close> is the given table\<close>
  "classify_outcome_with table text =
     (let text_lower = lower text in
      case fold_err (\<lambda>(outc, patterns) scores.
                       (let matches = count_matches patterns text_lower in
                        if length patterns = 0 then Inl ZeroDivisionError
                        else Inr (dict_set scores outc
                                    (real matches / real (length patterns)))))
             table [] of
        Inl e \<Rightarrow> Inl e
      | Inr scores \<Rightarrow>
          (case scores of
             [] \<Rightarrow> Inr (''unknown'', 0)
           | kv # rest \<Rightarrow> Inr (max_item kv rest)))"

definition classify_outcome :: "string \<Rightarrow> py_error + (string \<times> real)" where
  "classify_outcome text = classify_outcome_with outcome_patterns text"

definition causal_pattern_step ::
  "string \<Rightarrow> string \<Rightarrow> seg list \<times> string \<Rightarrow> string list \<Rightarrow> py_error + string list" where
  \<comment> \<open>the body of the inner loop of \<open>extract_causal_factors\<close>\<close>
  "causal_pattern_step text_lower category pt factors =
     (case pt of (pattern, template) \<Rightarrow>
        (case re_search pattern text_lower of
           None \<Rightarrow> Inr factors
         | Some (g0, gs) \<Rightarrow>
             (case (if gs \<noteq> [] then py_format template gs else Inr template) of
                Inl e \<Rightarrow> Inl e
              | Inr factor \<Rightarrow> Inr (factors @ [py_title category @ '': '' @ factor]))))"

definition extract_causal_factors_with ::
  "(string \<times> (seg list \<times> string) list) list \<Rightarrow> string \<Rightarrow> py_error + string list" where
  "extract_causal_factors_with table text =
     (let text_lower = lower text in
      fold_err (\<lambda>(category, patterns) factors.
                  fold_err (causal_pattern_step text_lower category) patterns factors)
        table [])"

definition extract_causal_factors :: "string \<Rightarrow> py_error + string list" where
  "extract_causal_factors text = extract_causal_factors_with causal_patterns text"


section \<open>Loader\<close>

text \<open>
  The loader receives parsed JSON. A JSON object is a dictionary from strings to values,
  listed in insertion order. Python does not check the field types of the dataclasses,
  so a loaded transcript holds whatever values the entry carried: the records
  \<open>LoadedTurn\<close> and \<open>LoadedTranscript\<close> are \<open>ConversationTurn\<close> and
  \<open>ConversationTranscript\<close> with fields of JSON type. The retriever is modelled without
  a semantic backend (the embedding step of the loop is skipped; its own failures would
  be swallowed by a bare \<open>except\<close>).
\<close>

datatype json = JNull | JBool bool | JNum real | JStr string | JArr "json list"
  | JObj "(string \<times> json) list"

datatype pykey = KNone | KNum real | KStr string

fun hash_key :: "json \<Rightarrow> py_error + pykey" where
  \<comment> \<open>a value used as a dictionary key: lists and dictionaries are unhashable, and
      \<open>True\<close> and \<open>False\<close> are the keys 1 and 0\<close>
  "hash_key JNull = Inr KNone"
| "hash_key (JBool b) = Inr (KNum (if b then 1 else 0))"
| "hash_key (JNum x) = Inr (KNum x)"
| "hash_key (JStr s) = Inr (KStr s)"
| "hash_key (JArr xs) = Inl TypeError"
| "hash_key (JObj kvs) = Inl TypeError"

definition dict_get :: "(string \<times> json) list \<Rightarrow> string \<Rightarrow> json \<Rightarrow> json" where
  \<comment> \<open>\<open>d.get(k, default)\<close> on a dictionary\<close>
  "dict_get kvs k d = (case map_of kvs k of None \<Rightarrow> d | Some v \<Rightarrow> v)"

fun py_iter :: "json \<Rightarrow> py_error + json list" where
  \<comment> \<open>the items a \<open>for\<close> loop (or \<open>enumerate\<close>) draws from a value: the elements of a list,
      the keys of a dictionary, the characters of a string; other values are not iterable\<close>
  "py_iter (JArr xs) = Inr xs"
| "py_iter (JObj kvs) = Inr (map (\<lambda>kv. JStr (fst kv)) kvs)"
| "py_iter (JStr s) = Inr (map (\<lambda>c. JStr [c]) s)"
| "py_iter JNull = Inl TypeError"
| "py_iter (JBool b) = Inl TypeError"
| "py_iter (JNum x) = Inl TypeError"

fun str_of_nat :: "nat \<Rightarrow> string" where
  \<comment> \<open>the decimal numeral of a number, as an f-string prints it\<close>
  "str_of_nat n =
     (if n < 10 then [char_of (48 + n)] else str_of_nat (n div 10) @ [char_of (48 + n mod 10)])"

record LoadedTurn =
  l_turn_id :: nat
  l_speaker :: json
  l_text :: json
  l_timestamp :: json

record LoadedTranscript =
  l_transcript_id :: json
  l_domain :: json
  l_outcome :: string
  l_turns :: "LoadedTurn list"
  l_metadata :: "(string \<times> json) list"

record LoadingRetriever =
  loaded_by_id :: "(pykey \<times> LoadedTranscript) list"

definition parse_intent_to_outcome :: "string \<Rightarrow> string" where
  "parse_intent_to_outcome intent =
     (let intent_lower = lower intent in
      if py_in ''escalation'' intent_lower then ''escalation''
      else if py_in ''fraud'' intent_lower then ''fraud_resolved''
      else if py_in ''delivery'' intent_lower then ''delivery_investigation''
      else if py_in ''resolved'' intent_lower \<or> py_in ''compensation'' intent_lower
      then ''resolved_with_compensation''
      else if intent \<noteq> [] then intent else ''general_inquiry'')"

definition default_speaker :: "nat \<Rightarrow> string" where
  \<comment> \<open>\<open>f"Speaker{i%2+1}"\<close>\<close>
  "default_speaker i = ''Speaker'' @ str_of_nat (i mod 2 + 1)"

fun parse_turn :: "nat \<Rightarrow> json \<Rightarrow> LoadedTurn list" where
  \<comment> \<open>the body of the loop over the turns: what one item appends to \<open>turns\<close>\<close>
  "parse_turn i (JObj kvs) =
     [\<lparr> l_turn_id = i,
        l_speaker = dict_get kvs ''speaker'' (JStr (default_speaker i)),
        l_text = dict_get kvs ''text'' (dict_get kvs ''utterance'' (JStr '''')),
        l_timestamp = dict_get kvs ''timestamp'' JNull \<rparr>]"
| "parse_turn i (JStr s) =
     [\<lparr> l_turn_id = i, l_speaker = JStr (default_speaker i), l_text = JStr s,
        l_timestamp = JNull \<rparr>]"
| "parse_turn i JNull = []"
| "parse_turn i (JBool b) = []"
| "parse_turn i (JNum x) = []"
| "parse_turn i (JArr xs) = []"

definition parse_conversation :: "json \<Rightarrow> nat \<Rightarrow> py_error + LoadedTranscript" where
  "parse_conversation conv_data idx =
     (case conv_data of
        JObj kvs \<Rightarrow>
          (let conversation_data = dict_get kvs ''conversation'' (dict_get kvs ''turns'' (JArr []))
           in case py_iter conversation_data of
                Inl e \<Rightarrow> Inl e
              | Inr items \<Rightarrow>
                  (let turns = concat (map (\<lambda>(i, turn). parse_turn i turn) (enumerate 0 items));
                       intent = dict_get kvs ''intent'' (JStr '''')
                   in case intent of
                        JStr s \<Rightarrow>
                          Inr \<lparr> l_transcript_id =
                                  dict_get kvs ''transcript_id'' (JStr (''conv_'' @ str_of_nat idx)),
                                l_domain = dict_get kvs ''domain'' (JStr ''unknown''),
                                l_outcome = parse_intent_to_outcome s,
                                l_turns = turns,
                                l_metadata =
                                  [(''time_of_interaction'',
                                      dict_get kvs ''time_of_interaction'' JNull),
                                   (''intent'', intent),
                                   (''reason_for_call'',
                                      dict_get kvs ''reason_for_call'' (JStr ''''))] \<rparr>
                      | _ \<Rightarrow> Inl AttributeError))
      | _ \<Rightarrow> Inl AttributeError)"

definition extract_conversations :: "json \<Rightarrow> json" where
  "extract_conversations data =
     (case data of
        JArr xs \<Rightarrow> data
      | JObj kvs \<Rightarrow>
          (if ''transcripts'' \<in> set (map fst kvs) then dict_get kvs ''transcripts'' JNull
           else if ''conversations'' \<in> set (map fst kvs)
           then dict_get kvs ''conversations'' JNull
           else if ''conversation'' \<in> set (map fst kvs) \<or> ''transcript_id'' \<in> set (map fst kvs)
           then JArr [data]
           else JArr [])
      | _ \<Rightarrow> JArr [])"

definition load_entry :: "nat \<times> json \<Rightarrow> LoadingRetriever \<Rightarrow> LoadingRetriever" where
  \<comment> \<open>the body of the loop of \<open>load_conversations\<close>: an exception raised while parsing the
      entry or storing the transcript is caught and logged, and the store stays as it was\<close>
  "load_entry ic self =
     (case parse_conversation (snd ic) (fst ic) of
        Inl e \<Rightarrow> self
      | Inr transcript \<Rightarrow>
          (case hash_key (l_transcript_id transcript) of
             Inl e \<Rightarrow> self
           | Inr k \<Rightarrow> self\<lparr> loaded_by_id := dict_set (loaded_by_id self) k transcript \<rparr>))"

definition load_conversations ::
  "LoadingRetriever \<Rightarrow> json \<Rightarrow> py_error + (nat \<times> LoadingRetriever)" where
  \<comment> \<open>the result is the returned count and the retriever afterwards\<close>
  "load_conversations self data =
     (let conversations = extract_conversations data in
      case py_iter conversations of
        Inl e \<Rightarrow> Inl e
      | Inr items \<Rightarrow>
          (let self' = fold load_entry (enumerate 0 items) self
           in Inr (length (loaded_by_id self'), self')))"

definition then_load ::
  "py_error + (nat \<times> LoadingRetriever) \<Rightarrow> json \<Rightarrow> py_error + (nat \<times> LoadingRetriever)" where
  \<comment> \<open>a further call of \<open>load_conversations\<close> on the retriever that an earlier call left\<close>
  "then_load r data = (case r of Inl e \<Rightarrow> Inl e | Inr (n, self) \<Rightarrow> load_conversations self data)"


section \<open>Reference definitions and concrete inputs\<close>

subsection \<open>Evidence spans, as the specification words them\<close>

definition qualifies :: "string \<Rightarrow> ConversationTurn \<Rightarrow> bool" where
  \<comment> \<open>the lower-cased turn text contains the lower-cased form of a query token longer than
      3 characters, or a key-indicator word\<close>
  "qualifies q turn =
     (list_ex (\<lambda>w. length w > 3 \<and> py_in (lower w) (lower (text' turn))) (py_split q) \<or>
      list_ex (\<lambda>k. py_in k (lower (text' turn))) key_indicators)"

definition evidence_span :: "ConversationTurn \<Rightarrow> int \<times> string" where
  "evidence_span turn =
     (turn_id turn,
      ''['' @ speaker turn @ ''] '' @
      (if length (text' turn) > 120 then take 120 (text' turn) @ ''...'' else text' turn))"

subsection \<open>Causal factors and outcome scores, as the specification words them\<close>

fun fill :: "string \<Rightarrow> string list \<Rightarrow> string" where
  \<comment> \<open>the template with its fields \<open>{}\<close> replaced, in order, by the captured groups;
      with no group the template stays as it is\<close>
  "fill [] gs = []"
| "fill [c] gs = [c]"
| "fill (c # d # cs) gs =
     (if c = CHR ''{'' \<and> d = CHR ''}''
      then (case gs of [] \<Rightarrow> c # d # fill cs [] | g # gs' \<Rightarrow> g @ fill cs gs')
      else c # fill (d # cs) gs)"

definition pattern_factor :: "string \<Rightarrow> string \<Rightarrow> seg list \<times> string \<Rightarrow> string list" where
  \<comment> \<open>what one pattern contributes: one factor if it matches, nothing otherwise\<close>
  "pattern_factor text_lower category pt =
     (case re_search (fst pt) text_lower of
        None \<Rightarrow> []
      | Some (g0, gs) \<Rightarrow> [py_title category @ '': '' @ fill (snd pt) gs])"

definition category_scores :: "(string \<times> seg list list) list \<Rightarrow> string \<Rightarrow> (string \<times> real) list" where
  \<comment> \<open>per category, in declaration order: matching patterns / patterns\<close>
  "category_scores table text =
     map (\<lambda>(outc, patterns).
            (outc, real (count_matches patterns (lower text)) / real (length patterns)))
       table"

fun nfields :: "string \<Rightarrow> nat" where
  \<comment> \<open>the number of fields \<open>{}\<close> of a template\<close>
  "nfields [] = 0"
| "nfields [c] = 0"
| "nfields (c # d # cs) =
     (if c = CHR ''{'' \<and> d = CHR ''}'' then Suc (nfields cs) else nfields (d # cs))"


subsection \<open>What one call of the loader loads\<close>

definition entry_key :: "nat \<times> json \<Rightarrow> pykey option" where
  \<comment> \<open>the key under which an entry is stored, if it parses and its id can be a key\<close>
  "entry_key ic =
     (case parse_conversation (snd ic) (fst ic) of
        Inl e \<Rightarrow> None
      | Inr transcript \<Rightarrow>
          (case hash_key (l_transcript_id transcript) of Inl e \<Rightarrow> None | Inr k \<Rightarrow> Some k))"

definition loaded_keys :: "json list \<Rightarrow> pykey list" where
  \<comment> \<open>one key for each entry that the call loads successfully, in order\<close>
  "loaded_keys entries = List.map_filter entry_key (enumerate 0 entries)"

definition entry_a :: json where
  "entry_a = JObj [(''transcript_id'', JStr ''a''), (''intent'', JStr ''Fraud alert''),
                   (''conversation'', JArr [JObj [(''speaker'', JStr ''Agent''),
                                                  (''text'', JStr ''Hello'')]])]"

definition entry_b :: json where
  "entry_b = JObj [(''transcript_id'', JStr ''b''), (''intent'', JStr ''Delivery issue''),
                   (''turns'', JArr [JStr ''Where is my package?''])]"

definition entry_bad_intent :: json where
  \<comment> \<open>an entry whose \<open>intent\<close> is a number\<close>
  "entry_bad_intent = JObj [(''transcript_id'', JStr ''c''), (''intent'', JNum 7)]"


subsection \<open>Scenario A\<close>

definition scenario_A_text :: string where
  "scenario_A_text = ''I've been trying to resolve a login issue for three weeks... I've explained this multiple times... Nobody can tell me... error code 3309''"




subsection \<open>A transcript with a reason for the call\<close>

definition billing_transcript :: ConversationTranscript where
  "billing_transcript =
     \<lparr> transcript_id = ''conv_1'', domain = ''Banking'', outcome = ''general_inquiry'',
       turns = [\<lparr> turn_id = 0, speaker = ''Customer'',
                  text' = ''I have a question about my bill'', timestamp = None \<rparr>],
       metadata = [''reason_for_call'' \<mapsto> ''billing question''] \<rparr>"

subsection \<open>A turn of 121 characters\<close>

definition long_turn_transcript :: ConversationTranscript where
  "long_turn_transcript =
     \<lparr> transcript_id = ''conv_0'', domain = ''Banking'', outcome = ''general_inquiry'',
       turns = [\<lparr> turn_id = 0, speaker = ''Agent'',
                  text' = ''error'' @ replicate 116 (CHR ''x''), timestamp = None \<rparr>],
       metadata = Map.empty \<rparr>"

subsection \<open>A store of three transcripts\<close>

definition sample_delivery :: ConversationTranscript where
  "sample_delivery =
     \<lparr> transcript_id = ''b'', domain = ''Retail'', outcome = ''delivery_investigation'',
       turns = [\<lparr> turn_id = 0, speaker = ''Agent'', text' = ''Your package shows delivered'',
                  timestamp = None \<rparr>],
       metadata = Map.empty \<rparr>"

definition sample_fraud_alert :: ConversationTranscript where
  "sample_fraud_alert =
     \<lparr> transcript_id = ''a'', domain = ''Banking'', outcome = ''fraud_resolved'',
       turns = [\<lparr> turn_id = 0, speaker = ''Agent'', text' = ''We saw a fraud alert'',
                  timestamp = None \<rparr>],
       metadata = Map.empty \<rparr>"

definition sample_card_fraud :: ConversationTranscript where
  "sample_card_fraud =
     \<lparr> transcript_id = ''c'', domain = ''Banking'', outcome = ''fraud_resolved'',
       turns = [\<lparr> turn_id = 0, speaker = ''Customer'', text' = ''Fraud on the card'',
                  timestamp = None \<rparr>],
       metadata = Map.empty \<rparr>"

definition sample_retriever :: ConversationRetriever where
  \<comment> \<open>a retriever without the semantic backend\<close>
  "sample_retriever =
     \<lparr> conversations_by_id =
         [(''b'', sample_delivery), (''a'', sample_fraud_alert), (''c'', sample_card_fraud)],
       embeddings = [], has_embeddings = False \<rparr>"

definition near_tie_A :: ConversationTranscript where
  "near_tie_A =
     \<lparr> transcript_id = ''A'', domain = ''Banking'', outcome = ''fraud_resolved'',
       turns = [\<lparr> turn_id = 0, speaker = ''Customer'', text' = ''fraud aaa bbb'',
                  timestamp = None \<rparr>],
       metadata = Map.empty \<rparr>"

definition near_tie_B :: ConversationTranscript where
  "near_tie_B =
     \<lparr> transcript_id = ''B'', domain = ''Banking'', outcome = ''general_inquiry'',
       turns = [\<lparr> turn_id = 0, speaker = ''Customer'', text' = ''aaa bbb ccc ddd eee'',
                  timestamp = None \<rparr>],
       metadata = Map.empty \<rparr>"

definition near_tie_retriever :: ConversationRetriever where
  \<comment> \<open>a store of two transcripts whose scores for one query differ in the last bit\<close>
  "near_tie_retriever =
     \<lparr> conversations_by_id = [(''A'', near_tie_A), (''B'', near_tie_B)],
       embeddings = [], has_embeddings = False \<rparr>"

definition no_encode :: "string \<Rightarrow> py_error + real list" where
  \<comment> \<open>without the library \<open>self.model\<close> is \<open>None\<close>\<close>
  "no_encode q = Inl AttributeError"

definition no_cos_sim :: "real list \<Rightarrow> real list \<Rightarrow> py_error + real" where
  \<comment> \<open>without the library the name \<open>util\<close> is not bound\<close>
  "no_cos_sim a b = Inl NameError"

definition sample_semantic_retriever :: ConversationRetriever where
  \<comment> \<open>the same store with an embedding for each transcript\<close>
  "sample_semantic_retriever =
     \<lparr> conversations_by_id =
         [(''b'', sample_delivery), (''a'', sample_fraud_alert), (''c'', sample_card_fraud)],
       embeddings = [(''b'', [1, 0]), (''a'', [0, 1]), (''c'', [1, 1])],
       has_embeddings = True \<rparr>"

definition sample_encode :: "string \<Rightarrow> py_error + real list" where
  \<comment> \<open>a stand-in for the model: every query is embedded as the same vector\<close>
  "sample_encode q = Inr [0, 1]"

definition sample_cos_sim :: "real list \<Rightarrow> real list \<Rightarrow> py_error + real" where
  \<comment> \<open>a stand-in for the similarity: the inner product\<close>
  "sample_cos_sim a b = Inr (sum_list (map2 (*) a b))"


section \<open>Properties of the matcher\<close>

lemma match_segs_groups:
  "(rest, gs') \<in> set (match_segs p s gs) \<Longrightarrow> length gs' = length gs + ncaptures p"
proof (induction p s gs rule: match_segs.induct)
  case (1 s gs)
  then show ?case by simp
next
  case (2 r p s gs)
  then show ?case by auto
next
  case (3 r p s gs)
  then show ?case by fastforce
qed

lemma re_search_groups:
  "re_search p s = Some (g0, gs) \<Longrightarrow> length gs = ncaptures p"
proof (induction s)
  case Nil
  then show ?case
    using match_segs_groups [of _ gs p "[]" "[]"]
    by (auto split: list.splits)
next
  case (Cons c cs)
  show ?case
  proof (cases "match_segs p (c # cs) []")
    case Nil
    with Cons show ?thesis by simp
  next
    case (Cons a list)
    obtain rest gs' where a: "a = (rest, gs')" by (cases a)
    have "(rest, gs') \<in> set (match_segs p (c # cs) [])" using Cons a by simp
    from match_segs_groups [OF this] have "length gs' = ncaptures p" by simp
    moreover have "gs = gs'" using Cons.prems \<open>match_segs p (c # cs) [] = a # list\<close> a by simp
    ultimately show ?thesis by simp
  qed
qed

section \<open>Properties of the causal analyzer\<close>

lemma error_code_groups:
  "re_search error_code_re s = Some m \<Longrightarrow> length (snd m) = 1"
  using re_search_groups [of error_code_re s "fst m" "snd m"]
  by (simp add: error_code_re_def)

lemma escalation_cause_returns: "\<exists>cause. escalation_cause text = Inr cause"
proof (cases "re_search error_code_re text")
  case None
  then show ?thesis by (simp add: escalation_cause_def Let_def)
next
  case (Some m)
  then have "match_group m 1 = Inr (snd m ! 0)"
    using error_code_groups [OF Some] by (simp add: match_group_def)
  with Some show ?thesis by (simp add: escalation_cause_def Let_def)
qed

lemma generate_primary_cause_Cons:
  "\<exists>cause. generate_primary_cause outc (t # ts) = Inr cause"
  using escalation_cause_returns by (simp add: generate_primary_cause_def Let_def)

lemma analyze_Nil: "analyze self now q [] ih = Inr (empty_explanation now q, self)"
  by (simp add: analyze_def)

lemma analyze_Cons:
  assumes "generate_primary_cause (outcome t) (t # ts) = Inr cause"
  shows "analyze self now q (t # ts) ih =
           Inr (\<lparr> query = q, primary_cause = cause,
                  supporting_factors = extract_supporting_factors (outcome t) (t # ts),
                  evidence_spans = extract_evidence q (t # ts),
                  confidence = calculate_confidence (t # ts)
                                 (extract_supporting_factors (outcome t) (t # ts)),
                  relevant_transcript_ids = map transcript_id (t # ts),
                  timestamp_expl = now \<rparr>,
                if ih then self\<lparr> history := history self @
                       [\<lparr> h_query = q, h_explanation = cause, h_timestamp = now \<rparr>] \<rparr>
                else self)"
  using assms by (simp add: analyze_def Let_def)

lemma fmul_commute: "fmul a b = fmul b a"
  by (simp add: fmul_def mult.commute)

lemma calculate_confidence_formula:
  "calculate_confidence (t # ts) fs =
     min (max (let s = fadd (fadd (round_double (6 / 10))
                                 (min (fmul (round_double (5 / 100)) (float_of_nat (length (t # ts))))
                                      (round_double (15 / 100))))
                           (min (fmul (round_double (3 / 100)) (float_of_nat (length fs)))
                                (round_double (15 / 100)))
               in if (case metadata t ''reason_for_call'' of
                        None \<Rightarrow> False | Some r \<Rightarrow> r \<noteq> [])
                  then fadd s (round_double (1 / 10)) else s)
              (round_double (6 / 10))) (round_double (95 / 100))"
  unfolding calculate_confidence_def Let_def list.case
    fmul_commute [of "round_double (5 / 100)"] fmul_commute [of "round_double (3 / 100)"]
  by (rule refl)

lemma double_bounds_ordered: "round_double (6 / 10) \<le> round_double (95 / 100)"
  by code_simp

lemma clamp_bounds:
  fixes a b x :: rat
  assumes "a \<le> b"
  shows "a \<le> min (max x a) b \<and> min (max x a) b \<le> b"
  using assms by (simp add: min_def max_def)

lemma confidence_two_transcripts:
  "map_sum id ((\<lambda>e. (length (supporting_factors e), confidence e)) \<circ> fst)
     (analyze \<lparr> history = [] \<rparr> ''2024-01-01T00:00:00'' ''why did the customer call''
        [billing_transcript, billing_transcript] True)
   = Inr (0, 7205759403792793 / 9007199254740992)"
  by code_simp

text \<open>
  C1. For the empty transcript list \<open>analyze\<close> returns the confidence 0.3. For every
  non-empty transcript list and every query it returns (it does not raise) and the
  confidence is 0.6 + min(0.05 * transcript count, 0.15) + min(0.03 * factor count, 0.15),
  plus 0.1 if the first transcript's \<open>reason_for_call\<close> is non-empty, clamped between 0.6
  and 0.95. The factor count is the number of supporting factors of the returned
  explanation. The numbers are Python floats: each literal is the double nearest to the
  decimal, the sum is taken from left to right, and each product and each sum is rounded
  to the nearest double. So two transcripts without supporting factors and with a reason
  for the call get 0.7999999999999999 (\<open>confidence_two_transcripts\<close>), the value of
  \<open>0.6 + 0.1 + 0.0 + 0.1\<close> in Python.
\<close>

theorem analyze_confidence:
  "(\<exists>e s'. analyze self now q [] ih = Inr (e, s') \<and> confidence e = round_double (3 / 10)) \<and>
   (\<exists>e s'. analyze self now q (t # ts) ih = Inr (e, s') \<and>
      confidence e =
        min (max (let s = fadd (fadd (round_double (6 / 10))
                    (min (fmul (round_double (5 / 100)) (float_of_nat (length (t # ts))))
                         (round_double (15 / 100))))
                    (min (fmul (round_double (3 / 100))
                            (float_of_nat (length (supporting_factors e))))
                         (round_double (15 / 100)))
                  in if (case metadata t ''reason_for_call'' of
                           None \<Rightarrow> False | Some r \<Rightarrow> r \<noteq> [])
                     then fadd s (round_double (1 / 10)) else s)
                 (round_double (6 / 10))) (round_double (95 / 100)) \<and>
      round_double (6 / 10) \<le> confidence e \<and> confidence e \<le> round_double (95 / 100))"
proof
  show "\<exists>e s'. analyze self now q [] ih = Inr (e, s') \<and> confidence e = round_double (3 / 10)"
    by (simp add: analyze_Nil empty_explanation_def)
next
  obtain cause where c: "generate_primary_cause (outcome t) (t # ts) = Inr cause"
    using generate_primary_cause_Cons by blast
  define fs where "fs = extract_supporting_factors (outcome t) (t # ts)"
  define e where "e = \<lparr> query = q, primary_cause = cause, supporting_factors = fs,
     evidence_spans = extract_evidence q (t # ts),
     confidence = calculate_confidence (t # ts) fs,
     relevant_transcript_ids = map transcript_id (t # ts), timestamp_expl = now \<rparr>"
  have a: "\<exists>s'. analyze self now q (t # ts) ih = Inr (e, s')"
    unfolding e_def fs_def analyze_Cons [OF c] by blast
  have f: "supporting_factors e = fs" and k: "confidence e = calculate_confidence (t # ts) fs"
    by (simp_all add: e_def)
  have v: "confidence e =
        min (max (let s = fadd (fadd (round_double (6 / 10))
                    (min (fmul (round_double (5 / 100)) (float_of_nat (length (t # ts))))
                         (round_double (15 / 100))))
                    (min (fmul (round_double (3 / 100))
                            (float_of_nat (length (supporting_factors e))))
                         (round_double (15 / 100)))
                  in if (case metadata t ''reason_for_call'' of
                           None \<Rightarrow> False | Some r \<Rightarrow> r \<noteq> [])
                     then fadd s (round_double (1 / 10)) else s)
                 (round_double (6 / 10))) (round_double (95 / 100))"
    unfolding f unfolding k by (rule calculate_confidence_formula)
  have b: "round_double (6 / 10) \<le> confidence e \<and> confidence e \<le> round_double (95 / 100)"
    unfolding v using double_bounds_ordered by (rule clamp_bounds)
  from a v b show "\<exists>e s'. analyze self now q (t # ts) ih = Inr (e, s') \<and>
      confidence e =
        min (max (let s = fadd (fadd (round_double (6 / 10))
                    (min (fmul (round_double (5 / 100)) (float_of_nat (length (t # ts))))
                         (round_double (15 / 100))))
                    (min (fmul (round_double (3 / 100))
                            (float_of_nat (length (supporting_factors e))))
                         (round_double (15 / 100)))
                  in if (case metadata t ''reason_for_call'' of
                           None \<Rightarrow> False | Some r \<Rightarrow> r \<noteq> [])
                     then fadd s (round_double (1 / 10)) else s)
                 (round_double (6 / 10))) (round_double (95 / 100)) \<and>
      round_double (6 / 10) \<le> confidence e \<and> confidence e \<le> round_double (95 / 100)"
    by blast
qed

text \<open>
  C8. Two calls of \<open>analyze\<close> with the same query and the same transcript list, in any
  two analyzer states, at any two clock readings and with any history flags, both return,
  and their explanations have the same primary cause, supporting factors, evidence spans
  and confidence. In particular the second call may start from the state the first one
  left.
\<close>

theorem analyze_idempotent:
  "\<exists>e1 s1 e2 s2.
     analyze self1 now1 q transcripts ih1 = Inr (e1, s1) \<and>
     analyze self2 now2 q transcripts ih2 = Inr (e2, s2) \<and>
     primary_cause e1 = primary_cause e2 \<and>
     supporting_factors e1 = supporting_factors e2 \<and>
     evidence_spans e1 = evidence_spans e2 \<and>
     confidence e1 = confidence e2"
proof (cases transcripts)
  case Nil
  then show ?thesis by (simp add: analyze_Nil empty_explanation_def)
next
  case (Cons t ts)
  obtain cause where c: "generate_primary_cause (outcome t) (t # ts) = Inr cause"
    using generate_primary_cause_Cons by blast
  show ?thesis unfolding Cons analyze_Cons [OF c] by simp
qed

text \<open>
  C9. A call of \<open>analyze\<close> with the empty transcript list returns the analyzer unchanged,
  so the history keeps its records. A call with a non-empty transcript list and
  \<open>include_history\<close> at its default \<open>True\<close> returns, and the history afterwards is the
  history before followed by exactly one record, which holds the query and the primary
  cause of the returned explanation.
\<close>

theorem analyze_history:
  "(\<exists>e. analyze self now q [] ih = Inr (e, self)) \<and>
   (\<exists>e s' r. analyze self now q (t # ts) True = Inr (e, s') \<and>
      history s' = history self @ [r] \<and>
      h_query r = q \<and> h_explanation r = primary_cause e \<and> h_timestamp r = timestamp_expl e)"
proof
  show "\<exists>e. analyze self now q [] ih = Inr (e, self)"
    by (simp add: analyze_Nil)
next
  obtain cause where c: "generate_primary_cause (outcome t) (t # ts) = Inr cause"
    using generate_primary_cause_Cons by blast
  show "\<exists>e s' r. analyze self now q (t # ts) True = Inr (e, s') \<and>
      history s' = history self @ [r] \<and>
      h_query r = q \<and> h_explanation r = primary_cause e \<and> h_timestamp r = timestamp_expl e"
    unfolding analyze_Cons [OF c] by simp
qed

subsection \<open>Primary cause of scenario A\<close>

lemma scenario_A_cause:
  "escalation_cause (lower scenario_A_text) = Inr ''Customer escalated due to: prolonged issue duration (multiple weeks); multiple failed resolution attempts; previous agents unable to resolve; unresolved error code 3309''"
  by code_simp

























subsection \<open>Evidence spans\<close>

lemma list_ex_query_terms:
  "list_ex P (query_terms_of q) \<longleftrightarrow> list_ex (\<lambda>w. length w > 3 \<and> P (lower w)) (py_split q)"
  by (auto simp: query_terms_of_def list_ex_iff)

lemma matches_pos_iff: "0 < length (filter P xs) \<longleftrightarrow> list_ex P xs"
  by (auto simp: list_ex_iff filter_empty_conv)

lemma evidence_turn_eq:
  "evidence_turn (query_terms_of q) turn ev =
     (if qualifies q turn \<and> length ev < 4 then ev @ [evidence_span turn] else ev)"
  unfolding evidence_turn_def Let_def matches_pos_iff list_ex_query_terms
  by (simp add: qualifies_def evidence_span_def display_def slice_to_def)

lemma fold_evidence_turn:
  "fold (evidence_turn (query_terms_of q)) ts ev =
     ev @ take (4 - length ev) (map evidence_span (filter (qualifies q) ts))"
proof (induction ts arbitrary: ev)
  case Nil
  then show ?case by simp
next
  case (Cons t ts)
  have step: "fold (evidence_turn (query_terms_of q)) (t # ts) ev =
              fold (evidence_turn (query_terms_of q)) ts (evidence_turn (query_terms_of q) t ev)"
    by simp
  show ?case
  proof (cases "qualifies q t \<and> length ev < 4")
    case True
    then obtain n where n: "4 - length ev = Suc n" by (cases "4 - length ev") auto
    then have m: "4 - length (ev @ [evidence_span t]) = n" by simp
    have "evidence_turn (query_terms_of q) t ev = ev @ [evidence_span t]"
      using True by (simp add: evidence_turn_eq)
    then show ?thesis unfolding step using True n m by (simp add: Cons.IH)
  next
    case False
    then have "evidence_turn (query_terms_of q) t ev = ev" by (simp add: evidence_turn_eq)
    then show ?thesis unfolding step using False by (auto simp: Cons.IH)
  qed
qed

lemma take_take_append:
  "take n xs @ take (n - length (take n xs)) ys = take n (xs @ ys)"
  by (cases "n \<le> length xs") (simp_all add: min_def)

lemma fold_fold_evidence_turn:
  "fold (\<lambda>tr ev. fold (evidence_turn (query_terms_of q)) (turns tr) ev) trs ev =
     ev @ take (4 - length ev)
            (map evidence_span (filter (qualifies q) (concat (map turns trs))))"
proof (induction trs arbitrary: ev)
  case Nil
  then show ?case by simp
next
  case (Cons tr trs)
  define a where "a = map evidence_span (filter (qualifies q) (turns tr))"
  define b where "b = map evidence_span (filter (qualifies q) (concat (map turns trs)))"
  have "fold (\<lambda>tr ev. fold (evidence_turn (query_terms_of q)) (turns tr) ev) (tr # trs) ev =
        fold (\<lambda>tr ev. fold (evidence_turn (query_terms_of q)) (turns tr) ev) trs
          (fold (evidence_turn (query_terms_of q)) (turns tr) ev)"
    by simp
  also have "\<dots> = fold (\<lambda>tr ev. fold (evidence_turn (query_terms_of q)) (turns tr) ev) trs
                    (ev @ take (4 - length ev) a)"
    unfolding a_def by (simp only: fold_evidence_turn)
  also have "\<dots> = (ev @ take (4 - length ev) a) @
                   take (4 - length (ev @ take (4 - length ev) a)) b"
    unfolding b_def by (rule Cons.IH)
  also have "\<dots> = ev @ (take (4 - length ev) a @
                         take (4 - length ev - length (take (4 - length ev) a)) b)"
    by simp
  also have "\<dots> = ev @ take (4 - length ev) (a @ b)"
    by (simp only: take_take_append)
  finally show ?case by (simp add: a_def b_def)
qed

lemma extract_evidence_eq:
  "extract_evidence q trs =
     take 4 (map evidence_span (filter (qualifies q) (concat (map turns trs))))"
  unfolding extract_evidence_def Let_def fold_fold_evidence_turn by simp

lemma analyze_evidence:
  "\<exists>e s'. analyze self now q trs ih = Inr (e, s') \<and> evidence_spans e = extract_evidence q trs"
proof (cases trs)
  case Nil
  then show ?thesis
    by (simp add: analyze_Nil empty_explanation_def extract_evidence_def)
next
  case (Cons t ts)
  obtain cause where c: "generate_primary_cause (outcome t) (t # ts) = Inr cause"
    using generate_primary_cause_Cons by blast
  show ?thesis unfolding Cons analyze_Cons [OF c] by simp
qed

text \<open>
  C4 as the code has it. For every query and transcript list \<open>analyze\<close> returns, and its
  evidence spans are the first 4 spans of the qualifying turns, taken over the transcripts
  in the given order and the turns of each in turn order. A turn qualifies iff its
  lower-cased text contains the lower-cased form of some query token longer than 3
  characters, or some key-indicator word. The span of a turn is the pair of its
  \<open>turn_id\<close> and the string "[speaker] " followed by the display text: the turn text,
  cut to its first 120 characters plus "..." when it is longer. The display text is at
  most 123 characters long, and the string of the span is longer than it by the length of
  the speaker plus 3.
\<close>

theorem analyze_evidence_spans:
  "\<exists>e s'. analyze self now q transcripts ih = Inr (e, s') \<and>
     evidence_spans e =
       take 4 (map evidence_span (filter (qualifies q) (concat (map turns transcripts)))) \<and>
     length (evidence_spans e) \<le> 4 \<and>
     (\<forall>turn. \<exists>d. evidence_span turn = (turn_id turn, ''['' @ speaker turn @ ''] '' @ d) \<and>
        d = (if length (text' turn) > 120 then take 120 (text' turn) @ ''...''
             else text' turn) \<and>
        length d \<le> 123 \<and>
        length (snd (evidence_span turn)) = length (speaker turn) + 3 + length d)"
proof -
  obtain e s' where a: "analyze self now q transcripts ih = Inr (e, s')"
    and ev: "evidence_spans e = extract_evidence q transcripts"
    using analyze_evidence by blast
  have 1: "evidence_spans e =
       take 4 (map evidence_span (filter (qualifies q) (concat (map turns transcripts))))"
    unfolding ev by (rule extract_evidence_eq)
  have 2: "length (evidence_spans e) \<le> 4"
    unfolding 1 by simp
  have 3: "\<forall>turn. \<exists>d. evidence_span turn = (turn_id turn, ''['' @ speaker turn @ ''] '' @ d) \<and>
        d = (if length (text' turn) > 120 then take 120 (text' turn) @ ''...''
             else text' turn) \<and>
        length d \<le> 123 \<and>
        length (snd (evidence_span turn)) = length (speaker turn) + 3 + length d"
    by (simp add: evidence_span_def)
  from a 1 2 3 show ?thesis by blast
qed

lemma long_turn_evidence:
  "map (length \<circ> snd) (extract_evidence ''why'' [long_turn_transcript]) = [131]"
  by code_simp

text \<open>
  C4 as stated fails: a turn of speaker "Agent" whose text has 121 characters and
  contains "error" gives a span whose string has 131 characters.
\<close>

theorem evidence_display_text_counterexample:
  "map_sum id (map (length \<circ> snd) \<circ> evidence_spans \<circ> fst)
     (analyze \<lparr> history = [] \<rparr> ''2024-01-01T00:00:00'' ''why'' [long_turn_transcript] True)
   = Inr [131]"
proof -
  obtain cause where
    c: "generate_primary_cause (outcome long_turn_transcript) [long_turn_transcript] = Inr cause"
    using generate_primary_cause_Cons by blast
  show ?thesis
    unfolding analyze_Cons [OF c] using long_turn_evidence by simp
qed

section \<open>Properties of keyword retrieval\<close>

subsection \<open>Slices, dictionaries and subsequences\<close>

lemma slice_to_nonneg: "0 \<le> k \<Longrightarrow> slice_to xs k = take (nat k) xs"
  by (simp add: slice_to_def)

lemma slice_to_take: "\<exists>m. slice_to xs k = take m xs \<and> (0 \<le> k \<longrightarrow> m = nat k)"
  by (auto simp: slice_to_def)

lemma slice_to_same_length:
  "length xs = length ys \<Longrightarrow> \<exists>m. slice_to xs k = take m xs \<and> slice_to ys k = take m ys"
  by (auto simp: slice_to_def)

lemma set_dict_set: "set (dict_set d k v) \<subseteq> insert (k, v) (set d)"
  by (auto simp: dict_set_def split: if_splits)

lemma dict_set_fresh: "k \<notin> set (map fst d) \<Longrightarrow> dict_set d k v = d @ [(k, v)]"
  by (simp add: dict_set_def)

lemma fold_dict_set_distinct:
  assumes "distinct (map fst acc @ map fst store)"
  shows "fold (\<lambda>(tid, transcript) scores. dict_set scores tid (f transcript)) store acc =
         acc @ map (\<lambda>(tid, transcript). (tid, f transcript)) store"
  using assms
proof (induction store arbitrary: acc)
  case Nil
  then show ?case by simp
next
  case (Cons p store)
  obtain tid t where p: "p = (tid, t)" by (cases p)
  have fresh: "tid \<notin> set (map fst acc)" using Cons.prems p by auto
  have d: "distinct (map fst (acc @ [(tid, f t)]) @ map fst store)"
    using Cons.prems p by auto
  show ?case
    using Cons.IH [OF d] by (simp add: p dict_set_fresh [OF fresh])
qed

lemma fold_dict_set_subset:
  "set (fold (\<lambda>(tid, transcript) scores. dict_set scores tid (f transcript)) store acc) \<subseteq>
     set acc \<union> (\<lambda>(tid, transcript). (tid, f transcript)) ` set store"
proof (induction store arbitrary: acc)
  case Nil
  then show ?case by simp
next
  case (Cons p store)
  obtain tid t where p: "p = (tid, t)" by (cases p)
  show ?case
    using Cons.IH [of "dict_set acc tid (f t)"] set_dict_set [of acc tid "f t"]
    by (auto simp: p)
qed

lemma keyword_scores_distinct:
  assumes "distinct (map fst store)"
  shows "fold (\<lambda>(tid, transcript) scores. dict_set scores tid (f transcript)) store [] =
         map (\<lambda>(tid, transcript). (tid, f transcript)) store"
  using fold_dict_set_distinct [of "[]" store f] assms by simp

lemma subseq_pair_nth:
  assumes "i < j" "j < length xs"
  shows "subseq [xs ! i, xs ! j] xs"
proof -
  have 1: "xs = take j xs @ xs ! j # drop (Suc j) xs"
    using assms by (simp add: id_take_nth_drop)
  have i: "i < length (take j xs)" using assms by simp
  have 3: "take j xs ! i = xs ! i" using assms by simp
  have "subseq [xs ! i] (take j xs)"
    using i 3 by (metis nth_mem subseq_singleton_left)
  then have "subseq ([xs ! i] @ [xs ! j]) (take j xs @ xs ! j # drop (Suc j) xs)"
    by (intro list_emb_append_mono) auto
  with 1 show ?thesis by simp
qed

lemma subseq_pair_positions:
  assumes "subseq [x, y] zs"
  shows "\<exists>a b. a < b \<and> b < length zs \<and> zs ! a = x \<and> zs ! b = y"
proof -
  from assms obtain us v vs where 1: "zs = us @ v # vs" "x = v" "subseq [y] vs"
    by (auto dest: list_emb_ConsD)
  from 1(3) obtain k where k: "k < length vs" "vs ! k = y"
    by (auto simp: subseq_singleton_left in_set_conv_nth)
  have "zs ! length us = x" using 1 by simp
  moreover have "zs ! (length us + Suc k) = y" using 1 k by (simp add: nth_append)
  moreover have "length us + Suc k < length zs" using 1 k by simp
  moreover have "length us < length us + Suc k" by simp
  ultimately show ?thesis by blast
qed

lemma subseq_in_set: "subseq [x, y] zs \<Longrightarrow> x \<in> set zs \<and> y \<in> set zs"
  using subseq_pair_positions [of x y zs] by (metis nth_mem order.strict_trans)

lemma sorted_wrt_subseq_pair:
  assumes "sorted_wrt R zs" "subseq [x, y] zs"
  shows "R x y"
  using subseq_pair_positions [OF assms(2)] assms(1)
  by (auto simp: sorted_wrt_iff_nth_less)

lemma subseq_filter_slice: "subseq (filter P (slice_to S k)) S"
proof -
  obtain m where "slice_to S k = take m S" using slice_to_take by blast
  then have "subseq (slice_to S k) S" by (simp add: take_is_prefix prefix_imp_subseq)
  moreover have "subseq (filter P (slice_to S k)) (slice_to S k)" by (rule subseq_filter_left)
  ultimately show ?thesis by (rule subseq_order.order_trans [rotated])
qed

subsection \<open>The descending sort is stable\<close>

lemma sorted_reverse_descending:
  "sorted_wrt (\<lambda>a b. key b \<le> key a) (sorted_reverse key xs)"
proof -
  have "sorted (map (\<lambda>x. - key x) (sort_key (\<lambda>x. - key x) xs))"
    by (rule sorted_sort_key)
  then show ?thesis
    unfolding sorted_reverse_def by (simp add: sorted_map)
qed

lemma sorted_reverse_stable:
  "filter (\<lambda>y. key y = v) (sorted_reverse key xs) = filter (\<lambda>y. key y = v) xs"
proof -
  have "filter (\<lambda>y. - key y = - v) (sort_key (\<lambda>x. - key x) xs) =
        filter (\<lambda>y. - key y = - v) xs"
    by (rule sort_key_stable)
  then show ?thesis unfolding sorted_reverse_def by simp
qed

lemma sorted_reverse_equal_keys_order:
  assumes "subseq [x, y] (sorted_reverse key xs)" and "key x = key y"
  shows "subseq [x, y] xs"
proof -
  have "subseq (filter (\<lambda>z. key z = key y) [x, y])
               (filter (\<lambda>z. key z = key y) (sorted_reverse key xs))"
    using assms(1) by (rule subseq_filter)
  then have "subseq [x, y] (filter (\<lambda>z. key z = key y) xs)"
    using assms(2) by (simp add: sorted_reverse_stable)
  then show ?thesis
    using subseq_filter_left subseq_order.order_trans by blast
qed

lemma ranked_pair:
  fixes items :: "('a \<times> 'b::linordered_idom) list"
  assumes "i < j" and "j < length (filter P (slice_to (sorted_reverse snd items) k))"
  defines "x \<equiv> filter P (slice_to (sorted_reverse snd items) k) ! i"
      and "y \<equiv> filter P (slice_to (sorted_reverse snd items) k) ! j"
  shows "snd y \<le> snd x" and "x \<in> set items" and "y \<in> set items"
    and "snd x = snd y \<Longrightarrow> subseq [x, y] items"
proof -
  have "subseq [x, y] (filter P (slice_to (sorted_reverse snd items) k))"
    unfolding x_def y_def using assms(1,2) by (rule subseq_pair_nth)
  then have xyS: "subseq [x, y] (sorted_reverse snd items)"
    using subseq_filter_slice by (rule subseq_order.order_trans)
  show "snd y \<le> snd x"
    using sorted_reverse_descending xyS by (rule sorted_wrt_subseq_pair)
  have "x \<in> set (sorted_reverse snd items) \<and> y \<in> set (sorted_reverse snd items)"
    using xyS by (rule subseq_in_set)
  then show "x \<in> set items" and "y \<in> set items"
    unfolding sorted_reverse_def by simp_all
  show "subseq [x, y] items" if "snd x = snd y"
    using xyS that by (rule sorted_reverse_equal_keys_order)
qed

lemma no_positive_in_slice:
  fixes items :: "('a \<times> 'b::linordered_idom) list"
  assumes "filter (\<lambda>(tid, score). score > 0) (slice_to (sorted_reverse snd items) k) = []"
      and "slice_to (sorted_reverse snd items) k \<noteq> []"
      and "p \<in> set items"
  shows "snd p \<le> 0"
proof -
  define S where "S = sorted_reverse snd items"
  obtain m where m: "slice_to S k = take m S" using slice_to_take by blast
  from assms(2) have "take m S \<noteq> []" unfolding S_def [symmetric] m .
  then obtain h tl where S: "S = h # tl" and m0: "m \<noteq> 0" by (cases S; cases m) auto
  then have "h \<in> set (take m S)" by (cases m) auto
  then have h: "\<not> snd h > 0"
    using assms(1) unfolding S_def [symmetric] m by (auto simp: filter_empty_conv)
  have "p \<in> set S" using assms(3) by (simp add: S_def sorted_reverse_def)
  moreover have "sorted_wrt (\<lambda>a b. snd b \<le> snd a) (h # tl)"
    using sorted_reverse_descending [of snd items] unfolding S_def [symmetric] S .
  ultimately have "snd p \<le> snd h" unfolding S by auto
  with h show ?thesis by simp
qed


subsection \<open>The ranking of \<open>retrieve_keyword\<close>\<close>

lemma round_half_even_nonneg: "0 \<le> x \<Longrightarrow> 0 \<le> round_half_even x"
  by (auto simp: round_half_even_def Let_def)

lemma round_double_nonneg: "0 \<le> x \<Longrightarrow> 0 \<le> round_double x"
proof -
  assume x: "0 \<le> x"
  have u: "0 < power_int (2::rat) k" for k by simp
  have "0 \<le> x / power_int 2 k" for k using x u [of k] by simp
  then have "0 \<le> round_half_even (x / power_int 2 k)" for k
    by (rule round_half_even_nonneg)
  then show ?thesis
    by (simp add: round_double_def Let_def)
qed

lemma fadd_nonneg: "0 \<le> a \<Longrightarrow> 0 \<le> b \<Longrightarrow> 0 \<le> fadd a b"
  by (simp add: fadd_def round_double_nonneg)

lemma fmul_nonneg: "0 \<le> a \<Longrightarrow> 0 \<le> b \<Longrightarrow> 0 \<le> fmul a b"
  by (simp add: fmul_def round_double_nonneg)

lemma int_truediv_nonneg: "0 \<le> int_truediv m n"
  by (simp add: int_truediv_def round_double_nonneg)

lemma keyword_score_nonneg: "0 \<le> keyword_score ql t"
proof -
  have s: "0 \<le> (if c then fadd x k else x)" if "0 \<le> x" "0 \<le> k" for c x k
    using that by (simp add: fadd_nonneg)
  have b: "0 \<le> (if c then fmul (int_truediv m n) 100 else 0)" for c m n
    by (simp add: fmul_nonneg int_truediv_nonneg)
  show ?thesis
    unfolding keyword_score_def Let_def
    by (intro s b) simp_all
qed
lemma scores_no_positive:
  assumes "list_all (\<lambda>(tid, t). \<not> f t > (0::'b::linordered_idom)) store"
  shows "filter (\<lambda>(tid, score). score > 0)
           (slice_to (sorted_reverse snd
              (fold (\<lambda>(tid, transcript) scores. dict_set scores tid (f transcript)) store []))
              k) = []"
proof -
  define xs where
    "xs = fold (\<lambda>(tid, transcript) scores. dict_set scores tid (f transcript)) store []"
  have a: "\<not> snd p > 0" if "p \<in> set xs" for p
    using fold_dict_set_subset [of f store "[]"] assms that
    unfolding xs_def by (fastforce simp: list_all_iff)
  have b: "set (slice_to (sorted_reverse snd xs) k) \<subseteq> set xs"
    by (auto simp: slice_to_def sorted_reverse_def dest: in_set_takeD)
  have "\<not> snd p > 0" if "p \<in> set (slice_to (sorted_reverse snd xs) k)" for p
    using a b that by blast
  then show ?thesis
    unfolding xs_def [symmetric] by (auto simp: filter_empty_conv)
qed

lemma retrieve_keyword_unfold:
  assumes "distinct (map fst (conversations_by_id self))"
  shows "retrieve_keyword self q top_k =
    (let rp = filter (\<lambda>(tid, score). score > 0)
                (slice_to (sorted_reverse snd
                   (map (\<lambda>(tid, transcript). (tid, keyword_score (lower q) transcript))
                      (conversations_by_id self))) top_k)
     in if map fst rp \<noteq> [] then map fst rp
        else slice_to (map fst (conversations_by_id self)) top_k)"
  unfolding retrieve_keyword_def Let_def keyword_scores_distinct [OF assms] by (rule refl)

lemma ranked_ids:
  fixes store :: "(string \<times> 'v) list" and ks :: "'v \<Rightarrow> 'b::linordered_idom" and top_k :: int
  defines "items \<equiv> map (\<lambda>(tid, transcript). (tid, ks transcript)) store"
  defines "rp \<equiv> filter (\<lambda>(tid, score). score > 0) (slice_to (sorted_reverse snd items) top_k)"
  assumes "i < j" and "j < length rp"
  shows "\<exists>a b. a < length store \<and> b < length store \<and>
           fst (store ! a) = map fst rp ! i \<and> fst (store ! b) = map fst rp ! j \<and>
           ks (snd (store ! b)) \<le> ks (snd (store ! a)) \<and>
           (ks (snd (store ! a)) = ks (snd (store ! b)) \<longrightarrow> a < b)"
proof -
  have len: "length items = length store" by (simp add: items_def)
  have item: "items ! n = (fst (store ! n), ks (snd (store ! n)))" if "n < length store" for n
    using that by (simp add: items_def case_prod_beta)
  have pos: "\<exists>n < length store. fst p = fst (store ! n) \<and> snd p = ks (snd (store ! n))"
    if "p \<in> set items" for p
  proof -
    from that obtain n where "n < length items" "items ! n = p" by (auto simp: in_set_conv_nth)
    then show ?thesis using item [of n] len by auto
  qed
  define x where "x = rp ! i"
  define y where "y = rp ! j"
  have j': "j < length (filter (\<lambda>(tid, score). score > 0)
                          (slice_to (sorted_reverse snd items) top_k))"
    using assms(4) unfolding rp_def .
  have rk1: "snd y \<le> snd x"
    unfolding x_def y_def rp_def using assms(3) j' by (rule ranked_pair(1))
  have rk2: "x \<in> set items"
    unfolding x_def y_def rp_def using assms(3) j' by (rule ranked_pair(2))
  have rk3: "y \<in> set items"
    unfolding x_def y_def rp_def using assms(3) j' by (rule ranked_pair(3))
  have rk4: "subseq [x, y] items" if "snd x = snd y"
    using assms(3) j' that unfolding x_def y_def rp_def by (rule ranked_pair(4))
  have rx: "map fst rp ! i = fst x" and ry: "map fst rp ! j = fst y"
    using assms(3,4) by (simp_all add: x_def y_def)
  show ?thesis
  proof (cases "snd x = snd y")
    case True
    then have "subseq [x, y] items" by (rule rk4)
    from subseq_pair_positions [OF this]
    obtain a b where ab: "a < b" "b < length items" "items ! a = x" "items ! b = y"
      by blast
    have a: "a < length store" and b: "b < length store" using ab len by simp_all
    have xa: "x = (fst (store ! a), ks (snd (store ! a)))" using item [OF a] ab(3) by simp
    have yb: "y = (fst (store ! b), ks (snd (store ! b)))" using item [OF b] ab(4) by simp
    have "fst (store ! a) = map fst rp ! i" unfolding rx xa by simp
    moreover have "fst (store ! b) = map fst rp ! j" unfolding ry yb by simp
    moreover have "ks (snd (store ! b)) \<le> ks (snd (store ! a))"
      using rk1 unfolding xa yb by simp
    ultimately show ?thesis using a b ab(1) by blast
  next
    case False
    obtain a where a: "a < length store" "fst x = fst (store ! a)" "snd x = ks (snd (store ! a))"
      using pos [OF rk2] by blast
    obtain b where b: "b < length store" "fst y = fst (store ! b)" "snd y = ks (snd (store ! b))"
      using pos [OF rk3] by blast
    have "fst (store ! a) = map fst rp ! i" unfolding rx a(2) ..
    moreover have "fst (store ! b) = map fst rp ! j" unfolding ry b(2) ..
    moreover have "ks (snd (store ! b)) \<le> ks (snd (store ! a))"
      using rk1 unfolding a(3) b(3) .
    moreover have "ks (snd (store ! a)) \<noteq> ks (snd (store ! b))"
      using False unfolding a(3) b(3) .
    ultimately show ?thesis using a(1) b(1) by blast
  qed
qed

lemma fallback_ids:
  fixes store :: "(string \<times> 'v) list" and ks :: "'v \<Rightarrow> 'b::linordered_idom" and top_k :: int
  defines "items \<equiv> map (\<lambda>(tid, transcript). (tid, ks transcript)) store"
  assumes "filter (\<lambda>(tid, score). score > 0) (slice_to (sorted_reverse snd items) top_k) = []"
      and "\<And>t. 0 \<le> ks t"
      and "i < j" and "j < length (slice_to (map fst store) top_k)"
  shows "i < length store \<and> j < length store \<and>
           fst (store ! i) = slice_to (map fst store) top_k ! i \<and>
           fst (store ! j) = slice_to (map fst store) top_k ! j \<and>
           ks (snd (store ! i)) = 0 \<and> ks (snd (store ! j)) = 0"
proof -
  have len: "length items = length store" by (simp add: items_def)
  have item: "items ! n = (fst (store ! n), ks (snd (store ! n)))" if "n < length store" for n
    using that by (simp add: items_def case_prod_beta)
  have "length (sorted_reverse snd items) = length (map fst store)"
    by (simp add: sorted_reverse_def len)
  from slice_to_same_length [OF this]
  obtain m where m: "slice_to (sorted_reverse snd items) top_k = take m (sorted_reverse snd items)"
    "slice_to (map fst store) top_k = take m (map fst store)"
    by blast
  have j: "j < m" "j < length store"
    using assms(5) unfolding m by simp_all
  have i: "i < length store" "i < m" using assms(4) j by simp_all
  have "length (take m (sorted_reverse snd items)) = min (length store) m"
    by (simp add: sorted_reverse_def len)
  then have "length (take m (sorted_reverse snd items)) \<noteq> 0" using j by linarith
  then have ne: "slice_to (sorted_reverse snd items) top_k \<noteq> []"
    unfolding m by (simp only: length_0_conv not_False_eq_True)
  have zero: "ks (snd (store ! n)) = 0" if n: "n < length store" for n
  proof -
    have "items ! n \<in> set items" using n len by simp
    with assms(2) ne have "snd (items ! n) \<le> 0" by (rule no_positive_in_slice)
    then have "ks (snd (store ! n)) \<le> 0" unfolding item [OF n] by simp
    moreover have "0 \<le> ks (snd (store ! n))" by (rule assms(3))
    ultimately show ?thesis by simp
  qed
  have "fst (store ! i) = slice_to (map fst store) top_k ! i"
    unfolding m using i by simp
  moreover have "fst (store ! j) = slice_to (map fst store) top_k ! j"
    unfolding m using j by simp
  ultimately show ?thesis using i(1) j(2) zero by simp
qed

lemma retrieve_keyword_bounds:
  assumes "query_words_of (lower q) \<noteq> []" and "1 \<le> top_k"
  shows "int (length (retrieve_keyword self q top_k)) \<le> top_k \<and>
         (conversations_by_id self \<noteq> [] \<longrightarrow> retrieve_keyword self q top_k \<noteq> []) \<and>
         (list_all (\<lambda>(tid, t). \<not> keyword_score (lower q) t > 0) (conversations_by_id self) \<longrightarrow>
            retrieve_keyword self q top_k = take (nat top_k) (map fst (conversations_by_id self)))"
proof -
  have k: "0 \<le> top_k" using assms(2) by simp
  define S where "S = sorted_reverse snd
     (fold (\<lambda>(tid, transcript) scores. dict_set scores tid (keyword_score (lower q) transcript))
        (conversations_by_id self) [])"
  define result where "result = map fst (filter (\<lambda>(tid, score). score > 0) (take (nat top_k) S))"
  have r: "retrieve_keyword self q top_k =
             (if result \<noteq> [] then result else take (nat top_k) (map fst (conversations_by_id self)))"
    unfolding retrieve_keyword_def Let_def result_def S_def slice_to_nonneg [OF k] by (rule refl)
  have "length result \<le> length (take (nat top_k) S)"
    unfolding result_def length_map by (rule length_filter_le)
  then have "length result \<le> nat top_k" by simp
  then have "int (length result) \<le> top_k" using k by linarith
  moreover have "length (take (nat top_k) (map fst (conversations_by_id self))) \<le> nat top_k"
    by simp
  then have "int (length (take (nat top_k) (map fst (conversations_by_id self)))) \<le> top_k"
    using k by linarith
  ultimately have 1: "int (length (retrieve_keyword self q top_k)) \<le> top_k"
    unfolding r by presburger
  have 2: "retrieve_keyword self q top_k \<noteq> []" if "conversations_by_id self \<noteq> []"
  proof (cases "result \<noteq> []")
    case True
    then show ?thesis unfolding r by simp
  next
    case False
    have "0 < nat top_k" using assms(2) by simp
    then have "take (nat top_k) (map fst (conversations_by_id self)) \<noteq> []"
      using that by (cases "nat top_k"; cases "conversations_by_id self") simp_all
    with False show ?thesis unfolding r by simp
  qed
  have 3: "retrieve_keyword self q top_k = take (nat top_k) (map fst (conversations_by_id self))"
    if "list_all (\<lambda>(tid, t). \<not> keyword_score (lower q) t > 0) (conversations_by_id self)"
  proof -
    have "result = []"
      using scores_no_positive [OF that, of top_k]
      unfolding result_def S_def slice_to_nonneg [OF k] by simp
    then show ?thesis unfolding r by simp
  qed
  from 1 2 3 show ?thesis by blast
qed

lemma dict_set_nonempty: "dict_set d k v \<noteq> []"
  by (cases d) (auto simp: dict_set_def)

lemma fold_err_nonempty:
  assumes "fold_err f xs acc = Inr r" and "acc \<noteq> []"
      and "\<And>x s s'. f x s = Inr s' \<Longrightarrow> s' \<noteq> []"
  shows "r \<noteq> []"
  using assms(1,2)
proof (induction xs arbitrary: acc)
  case Nil
  then show ?case by simp
next
  case (Cons x xs)
  then show ?case using assms(3) by (auto split: sum.splits)
qed

lemma semantic_scores_nonempty:
  fixes cos_sim :: "real list \<Rightarrow> real list \<Rightarrow> py_error + real"
    and embs :: "(string \<times> real list) list" and scores :: "(string \<times> real) list"
  assumes "fold_err (\<lambda>(tid, embedding) scores.
                            case cos_sim qe embedding of
                              Inl e \<Rightarrow> Inl e
                            | Inr similarity \<Rightarrow> Inr (dict_set scores tid similarity))
                  embs [] = Inr scores"
      and "embs \<noteq> []"
  shows "scores \<noteq> []"
proof -
  let ?f = "\<lambda>(tid, embedding) scores.
                            case cos_sim qe embedding of
                              Inl e \<Rightarrow> Inl e
                            | Inr similarity \<Rightarrow> Inr (dict_set scores tid similarity)"
  have step: "s' \<noteq> []" if "?f x s = Inr s'"
    for x :: "string \<times> real list" and s s' :: "(string \<times> real) list"
    using that by (auto simp: dict_set_nonempty split: prod.splits sum.splits)
  from assms(2) obtain x xs where e: "embs = x # xs" by (cases embs) auto
  from assms(1) obtain s1 where 1: "?f x [] = Inr s1" and 2: "fold_err ?f xs s1 = Inr scores"
    unfolding e by (auto split: sum.splits)
  have "s1 \<noteq> []" using step [OF 1] .
  with 2 show ?thesis using step by (rule fold_err_nonempty)
qed

lemma retrieve_semantic_result:
  assumes "embeddings self \<noteq> []"
  shows "retrieve_semantic encode cos_sim self q top_k = retrieve_keyword self q top_k \<or>
         (\<exists>scores :: (string \<times> real) list. scores \<noteq> [] \<and>
            retrieve_semantic encode cos_sim self q top_k =
              map fst (slice_to (sorted_reverse snd scores) top_k))"
proof (cases "encode q")
  case (Inl e)
  then show ?thesis by (simp add: retrieve_semantic_def)
next
  case (Inr qe)
  show ?thesis
  proof (cases "fold_err (\<lambda>(tid, embedding) scores.
                            case cos_sim qe embedding of
                              Inl e \<Rightarrow> Inl e
                            | Inr similarity \<Rightarrow> Inr (dict_set scores tid similarity))
                  (embeddings self) []")
    case (Inl e)
    then show ?thesis using Inr by (simp add: retrieve_semantic_def)
  next
    case scores: (Inr scores)
    have "scores \<noteq> []" using scores assms by (rule semantic_scores_nonempty)
    then show ?thesis using Inr scores by (auto simp: retrieve_semantic_def)
  qed
qed

lemma ranked_slice_bounds:
  assumes "1 \<le> top_k" and "scores \<noteq> []"
  shows "int (length (map fst (slice_to (sorted_reverse snd scores) top_k))) \<le> top_k"
    and "map fst (slice_to (sorted_reverse snd scores) top_k) \<noteq> []"
proof -
  have k: "0 \<le> top_k" using assms(1) by simp
  have "length (take (nat top_k) (sorted_reverse snd scores)) \<le> nat top_k" by simp
  then show "int (length (map fst (slice_to (sorted_reverse snd scores) top_k))) \<le> top_k"
    unfolding slice_to_nonneg [OF k] length_map using k by linarith
  have "sorted_reverse snd scores \<noteq> []"
    using assms(2) by (metis length_0_conv length_sort sorted_reverse_def)
  moreover have "0 < nat top_k" using assms(1) by simp
  ultimately have "take (nat top_k) (sorted_reverse snd scores) \<noteq> []"
    by (cases "nat top_k"; cases "sorted_reverse snd scores") simp_all
  then show "map fst (slice_to (sorted_reverse snd scores) top_k) \<noteq> []"
    unfolding slice_to_nonneg [OF k] by simp
qed

text \<open>
  C2 as the code has it. For every query whose token set is non-empty and every
  \<open>top_k\<close> of at least 1, \<open>retrieve\<close> returns at most \<open>top_k\<close> transcript ids, and at
  least one id whenever the store is non-empty, whatever the embedding model does; and
  when no transcript has a keyword score above 0, keyword retrieval falls back to the
  first \<open>top_k\<close> ids in store iteration order.
\<close>

theorem retrieve_bounds:
  assumes "query_words_of (lower q) \<noteq> []" and "1 \<le> top_k"
  shows "int (length (retrieve encode cos_sim self q top_k)) \<le> top_k \<and>
         (conversations_by_id self \<noteq> [] \<longrightarrow> retrieve encode cos_sim self q top_k \<noteq> []) \<and>
         (list_all (\<lambda>(tid, t). \<not> keyword_score (lower q) t > 0) (conversations_by_id self) \<longrightarrow>
            retrieve_keyword self q top_k = take (nat top_k) (map fst (conversations_by_id self)))"
proof -
  note kw = retrieve_keyword_bounds [OF assms, of self]
  from kw have kw1: "int (length (retrieve_keyword self q top_k)) \<le> top_k" by (rule conjunct1)
  from kw have kw2: "conversations_by_id self \<noteq> [] \<longrightarrow> retrieve_keyword self q top_k \<noteq> []"
    by (rule conjunct1 [OF conjunct2])
  from kw have kw3: "list_all (\<lambda>(tid, t). \<not> keyword_score (lower q) t > 0) (conversations_by_id self) \<longrightarrow>
            retrieve_keyword self q top_k = take (nat top_k) (map fst (conversations_by_id self))"
    by (rule conjunct2 [OF conjunct2])
  have "int (length (retrieve encode cos_sim self q top_k)) \<le> top_k \<and>
        (conversations_by_id self \<noteq> [] \<longrightarrow> retrieve encode cos_sim self q top_k \<noteq> [])"
  proof (cases "has_embeddings self \<and> embeddings self \<noteq> []")
    case False
    then have "retrieve encode cos_sim self q top_k = retrieve_keyword self q top_k"
      by (auto simp: retrieve_def)
    then show ?thesis using kw1 kw2 by simp
  next
    case True
    then have r: "retrieve encode cos_sim self q top_k =
                  retrieve_semantic encode cos_sim self q top_k"
      by (simp add: retrieve_def)
    from True have "embeddings self \<noteq> []" by simp
    from retrieve_semantic_result [OF this, of encode cos_sim q top_k]
    show ?thesis
    proof
      assume "retrieve_semantic encode cos_sim self q top_k = retrieve_keyword self q top_k"
      then show ?thesis unfolding r using kw1 kw2 by simp
    next
      assume "\<exists>scores :: (string \<times> real) list. scores \<noteq> [] \<and>
            retrieve_semantic encode cos_sim self q top_k =
              map fst (slice_to (sorted_reverse snd scores) top_k)"
      then obtain scores :: "(string \<times> real) list" where "scores \<noteq> []"
        and e: "retrieve_semantic encode cos_sim self q top_k =
                map fst (slice_to (sorted_reverse snd scores) top_k)"
        by blast
      from ranked_slice_bounds [OF assms(2) this(1)]
      show ?thesis unfolding r e by simp
    qed
  qed
  then show ?thesis using kw3 by (intro conjI) (rule conjunct1, assumption, rule conjunct2, assumption, assumption)
qed

theorem retrieve_bounds_witness:
  "query_words_of (lower ''fraud'') \<noteq> [] \<and> (1::int) \<le> 3 \<and>
   conversations_by_id sample_retriever \<noteq> [] \<and>
   retrieve no_encode no_cos_sim sample_retriever ''fraud'' 3 = [''a'', ''c''] \<and>
   int (length (retrieve no_encode no_cos_sim sample_retriever ''fraud'' 3)) \<le> 3 \<and>
   retrieve no_encode no_cos_sim sample_retriever ''fraud'' 3 \<noteq> [] \<and>
   conversations_by_id sample_semantic_retriever \<noteq> [] \<and>
   int (length (retrieve sample_encode sample_cos_sim sample_semantic_retriever ''fraud'' 3))
     \<le> 3 \<and>
   retrieve sample_encode sample_cos_sim sample_semantic_retriever ''fraud'' 3 \<noteq> [] \<and>
   query_words_of (lower ''refund'') \<noteq> [] \<and> (1::int) \<le> 2 \<and>
   list_all (\<lambda>(tid, t). \<not> keyword_score (lower ''refund'') t > 0)
     (conversations_by_id sample_retriever) \<and>
   retrieve_keyword sample_retriever ''refund'' 2 =
     take (nat 2) (map fst (conversations_by_id sample_retriever))"
proof -
  have h1: "query_words_of (lower ''fraud'') \<noteq> []" by code_simp
  have h2: "(1::int) \<le> 3" by simp
  have h3: "conversations_by_id sample_retriever \<noteq> []" by (simp add: sample_retriever_def)
  have h4: "conversations_by_id sample_semantic_retriever \<noteq> []"
    by (simp add: sample_semantic_retriever_def)
  have e: "retrieve no_encode no_cos_sim sample_retriever ''fraud'' 3 = [''a'', ''c'']"
    by code_simp
  have g1: "query_words_of (lower ''refund'') \<noteq> []" by code_simp
  have g2: "(1::int) \<le> 2" by simp
  have g3: "list_all (\<lambda>(tid, t). \<not> keyword_score (lower ''refund'') t > 0)
              (conversations_by_id sample_retriever)" by code_simp
  show ?thesis
    using h1 h2 h3 h4 e g1 g2 g3
      retrieve_bounds [OF h1 h2, of no_encode no_cos_sim sample_retriever]
      retrieve_bounds [OF h1 h2, of sample_encode sample_cos_sim sample_semantic_retriever]
      retrieve_bounds [OF g1 g2, of no_encode no_cos_sim sample_retriever]
    by blast
qed

text \<open>
  C2 as stated fails at \<open>top_k = 0\<close>: the query "fraud" has a token, the store holds
  three transcripts, and no id is returned.
\<close>

theorem retrieve_top_k_zero_counterexample:
  "query_words_of (lower ''fraud'') \<noteq> [] \<and>
   conversations_by_id sample_retriever \<noteq> [] \<and>
   retrieve no_encode no_cos_sim sample_retriever ''fraud'' 0 = []"
  by code_simp

text \<open>
  The scores are doubles. For the query "frauds aaa bbb ccc ddd eee" the transcript "A"
  matches 2 of the 6 query words and has the fraud boost, the transcript "B" matches 5 of
  the 6: the scores are 83.33333333333333 and 83.33333333333334, and "B" is ranked first
  although "A" was inserted first.
\<close>

lemma near_tie_ranking:
  "keyword_score (lower ''frauds aaa bbb ccc ddd eee'') near_tie_A =
     5864062014805333 / 70368744177664 \<and>
   keyword_score (lower ''frauds aaa bbb ccc ddd eee'') near_tie_B =
     2932031007402667 / 35184372088832 \<and>
   retrieve_keyword near_tie_retriever ''frauds aaa bbb ccc ddd eee'' 2 = [''B'', ''A'']"
  by code_simp

text \<open>
  C10. In keyword retrieval over a store whose ids are distinct, any two ids of the
  returned ranking, the first at an earlier position than the second, belong to
  transcripts of the store such that the score of the second is not above the score of
  the first, and such that, when the two scores are equal, the first was inserted into the
  store before the second. So equal scores keep store insertion order, and the order of
  the result is determined by the scores and the load order. The scores are the doubles
  that the code computes.
\<close>

theorem retrieve_keyword_stable:
  assumes "distinct (map fst (conversations_by_id self))"
      and "i < j" and "j < length (retrieve_keyword self q top_k)"
  shows "\<exists>a b. a < length (conversations_by_id self) \<and> b < length (conversations_by_id self) \<and>
           fst (conversations_by_id self ! a) = retrieve_keyword self q top_k ! i \<and>
           fst (conversations_by_id self ! b) = retrieve_keyword self q top_k ! j \<and>
           keyword_score (lower q) (snd (conversations_by_id self ! b))
             \<le> keyword_score (lower q) (snd (conversations_by_id self ! a)) \<and>
           (keyword_score (lower q) (snd (conversations_by_id self ! a)) =
            keyword_score (lower q) (snd (conversations_by_id self ! b)) \<longrightarrow> a < b)"
proof -
  define store where "store = conversations_by_id self"
  define ks where "ks = keyword_score (lower q)"
  define rp where "rp = filter (\<lambda>(tid, score). score > 0)
     (slice_to (sorted_reverse snd (map (\<lambda>(tid, transcript). (tid, ks transcript)) store)) top_k)"
  define res where "res = retrieve_keyword self q top_k"
  have r: "res = (if map fst rp \<noteq> [] then map fst rp else slice_to (map fst store) top_k)"
    unfolding res_def rp_def ks_def store_def
      retrieve_keyword_unfold [OF assms(1)] Let_def by (rule refl)
  have goal: "\<exists>a b. a < length store \<and> b < length store \<and>
           fst (store ! a) = res ! i \<and> fst (store ! b) = res ! j \<and>
           ks (snd (store ! b)) \<le> ks (snd (store ! a)) \<and>
           (ks (snd (store ! a)) = ks (snd (store ! b)) \<longrightarrow> a < b)"
  proof (cases "rp = []")
    case False
    then have res: "res = map fst rp" unfolding r by simp
    have j: "j < length rp" using assms(3) unfolding res_def [symmetric] res by simp
    show ?thesis
      unfolding res using assms(2) j unfolding rp_def by (rule ranked_ids)
  next
    case True
    then have res: "res = slice_to (map fst store) top_k" unfolding r by simp
    have j: "j < length (slice_to (map fst store) top_k)"
      using assms(3) unfolding res_def [symmetric] res .
    have nn: "0 \<le> ks t" for t unfolding ks_def by (rule keyword_score_nonneg)
    from fallback_ids [OF True [unfolded rp_def] nn assms(2) j]
    have "i < length store \<and> j < length store \<and>
           fst (store ! i) = res ! i \<and> fst (store ! j) = res ! j \<and>
           ks (snd (store ! i)) = 0 \<and> ks (snd (store ! j)) = 0"
      unfolding res .
    then have "i < length store \<and> j < length store \<and>
           fst (store ! i) = res ! i \<and> fst (store ! j) = res ! j \<and>
           ks (snd (store ! j)) \<le> ks (snd (store ! i)) \<and>
           (ks (snd (store ! i)) = ks (snd (store ! j)) \<longrightarrow> i < j)"
      using assms(2) by simp
    then show ?thesis by (intro exI)
  qed
  then show ?thesis unfolding store_def ks_def res_def .
qed

theorem retrieve_keyword_stable_witness:
  "distinct (map fst (conversations_by_id sample_retriever)) \<and> (0::nat) < 1 \<and>
   1 < length (retrieve_keyword sample_retriever ''fraud'' 3) \<and>
   retrieve_keyword sample_retriever ''fraud'' 3 = [''a'', ''c''] \<and>
   keyword_score (lower ''fraud'') sample_fraud_alert =
     keyword_score (lower ''fraud'') sample_card_fraud \<and>
   (\<exists>a b. a < length (conversations_by_id sample_retriever) \<and>
          b < length (conversations_by_id sample_retriever) \<and>
          fst (conversations_by_id sample_retriever ! a) =
            retrieve_keyword sample_retriever ''fraud'' 3 ! 0 \<and>
          fst (conversations_by_id sample_retriever ! b) =
            retrieve_keyword sample_retriever ''fraud'' 3 ! 1 \<and>
          keyword_score (lower ''fraud'') (snd (conversations_by_id sample_retriever ! b))
            \<le> keyword_score (lower ''fraud'') (snd (conversations_by_id sample_retriever ! a)) \<and>
          (keyword_score (lower ''fraud'') (snd (conversations_by_id sample_retriever ! a)) =
           keyword_score (lower ''fraud'') (snd (conversations_by_id sample_retriever ! b))
           \<longrightarrow> a < b))"
proof -
  have h1: "distinct (map fst (conversations_by_id sample_retriever))" by code_simp
  have h2: "(0::nat) < 1" by simp
  have h3: "1 < length (retrieve_keyword sample_retriever ''fraud'' 3)" by code_simp
  have e1: "retrieve_keyword sample_retriever ''fraud'' 3 = [''a'', ''c'']" by code_simp
  have e2: "keyword_score (lower ''fraud'') sample_fraud_alert =
            keyword_score (lower ''fraud'') sample_card_fraud" by code_simp
  show ?thesis
    using h1 h2 h3 e1 e2 retrieve_keyword_stable [OF h1 h2 h3] by blast
qed


section \<open>Properties of the pattern analyzer\<close>

lemma py_format_fill:
  "nfields t \<le> length gs \<Longrightarrow> py_format t gs = Inr (fill t gs)"
proof (induction t gs rule: py_format.induct)
  case (1 args)
  then show ?case by simp
next
  case (2 c args)
  then show ?case by simp
next
  case (3 c d cs args)
  then show ?case by (cases args) (auto split: if_splits)
qed

lemma fill_no_groups: "fill t [] = t"
  by (induction t "[] :: string list" rule: fill.induct) auto

lemma causal_pattern_step_ok:
  assumes "nfields (snd pt) \<le> ncaptures (fst pt)"
  shows "causal_pattern_step txt category pt factors = Inr (factors @ pattern_factor txt category pt)"
proof (cases "re_search (fst pt) txt")
  case None
  then show ?thesis
    by (simp add: causal_pattern_step_def pattern_factor_def case_prod_beta)
next
  case (Some m)
  obtain g0 gs where m: "m = (g0, gs)" by (cases m)
  have "length gs = ncaptures (fst pt)" using Some m by (simp add: re_search_groups)
  then have "py_format (snd pt) gs = Inr (fill (snd pt) gs)"
    using assms by (simp add: py_format_fill)
  then show ?thesis
    using Some m
    by (simp add: causal_pattern_step_def pattern_factor_def case_prod_beta fill_no_groups)
qed

lemma fold_err_steps:
  assumes "\<And>x s. x \<in> set xs \<Longrightarrow> f x s = Inr (s @ g x)"
  shows "fold_err f xs s = Inr (s @ concat (map g xs))"
  using assms by (induction xs arbitrary: s) simp_all


lemma causal_table_fields:
  "list_all (\<lambda>cp. list_all (\<lambda>pt. nfields (snd pt) \<le> ncaptures (fst pt)) (snd cp)) causal_patterns"
  by code_simp

text \<open>
  C6. For every input text, \<open>extract_causal_factors\<close> returns (no template raises), and
  its result is the concatenation, over the categories in declaration order and over the
  patterns of each category in declaration order, of what each pattern contributes: a
  pattern that matches the lower-cased text contributes exactly one factor, the titled
  category name, ": " and the template with its fields filled by the captured groups of
  the leftmost match; a pattern that does not match contributes nothing. Nothing is
  removed as a duplicate and no pattern is skipped after an earlier match. The titled
  category names are Temporal, Repetition, Emotional and Technical, and a template filled
  with no groups is the template itself.
\<close>

theorem extract_causal_factors_all_patterns:
  "extract_causal_factors text =
     Inr (concat (map (\<lambda>(category, patterns).
                         concat (map (pattern_factor (lower text) category) patterns))
            causal_patterns)) \<and>
   map (py_title \<circ> fst) causal_patterns =
     [''Temporal'', ''Repetition'', ''Emotional'', ''Technical''] \<and>
   (\<forall>template. fill template [] = template)"
proof -
  have inner: "fold_err (causal_pattern_step (lower text) (fst cp)) (snd cp) s =
               Inr (s @ concat (map (pattern_factor (lower text) (fst cp)) (snd cp)))"
    if "cp \<in> set causal_patterns" for cp s
  proof (rule fold_err_steps)
    fix pt s'
    assume "pt \<in> set (snd cp)"
    then have "nfields (snd pt) \<le> ncaptures (fst pt)"
      using causal_table_fields that by (auto simp: list_all_iff)
    then show "causal_pattern_step (lower text) (fst cp) pt s' =
               Inr (s' @ pattern_factor (lower text) (fst cp) pt)"
      by (rule causal_pattern_step_ok)
  qed
  have "fold_err (\<lambda>cp factors. fold_err (causal_pattern_step (lower text) (fst cp)) (snd cp) factors)
          causal_patterns [] =
        Inr ([] @ concat (map (\<lambda>cp. concat (map (pattern_factor (lower text) (fst cp)) (snd cp)))
                            causal_patterns))"
    by (rule fold_err_steps) (rule inner)
  then have 1: "extract_causal_factors text =
     Inr (concat (map (\<lambda>(category, patterns).
                         concat (map (pattern_factor (lower text) category) patterns))
            causal_patterns))"
    unfolding extract_causal_factors_def extract_causal_factors_with_def Let_def split_def
    by simp
  have 2: "map (py_title \<circ> fst) causal_patterns =
     [''Temporal'', ''Repetition'', ''Emotional'', ''Technical'']"
    by code_simp
  from 1 2 fill_no_groups show ?thesis by blast
qed

lemma max_item_split:
  "\<exists>pre post. best # rest = pre @ max_item best rest # post \<and>
      list_all (\<lambda>kv. snd kv < snd (max_item best rest)) pre \<and>
      list_all (\<lambda>kv. snd kv \<le> snd (max_item best rest)) post"
proof (induction rest arbitrary: best)
  case Nil
  have "[best] = [] @ best # []" by simp
  moreover have "list_all (\<lambda>kv. snd kv < snd best) []" "list_all (\<lambda>kv. snd kv \<le> snd best) []"
    by simp_all
  ultimately show ?case unfolding max_item.simps by blast
next
  case (Cons kv rest)
  show ?case
  proof (cases "snd kv > snd best")
    case True
    then have m: "max_item best (kv # rest) = max_item kv rest" by simp
    from Cons.IH [of kv] obtain pre post where
      d: "kv # rest = pre @ max_item kv rest # post"
      and p: "list_all (\<lambda>x. snd x < snd (max_item kv rest)) pre"
      and q: "list_all (\<lambda>x. snd x \<le> snd (max_item kv rest)) post"
      by blast
    have "snd kv \<le> snd (max_item kv rest)"
    proof (cases pre)
      case Nil
      from d have "kv # rest = max_item kv rest # post" unfolding Nil append_Nil .
      then have "max_item kv rest = kv" by (metis list.inject)
      then show ?thesis by simp
    next
      case (Cons a list)
      then have "kv \<in> set pre" using d by simp
      then show ?thesis using p by (auto simp: list_all_iff)
    qed
    then have "snd best < snd (max_item kv rest)" using True by simp
    then have "list_all (\<lambda>x. snd x < snd (max_item kv rest)) (best # pre)" using p by simp
    moreover have "best # kv # rest = (best # pre) @ max_item kv rest # post" using d by simp
    ultimately show ?thesis unfolding m using q by blast
  next
    case False
    then have m: "max_item best (kv # rest) = max_item best rest" by simp
    from Cons.IH [of best] obtain pre post where
      d: "best # rest = pre @ max_item best rest # post"
      and p: "list_all (\<lambda>x. snd x < snd (max_item best rest)) pre"
      and q: "list_all (\<lambda>x. snd x \<le> snd (max_item best rest)) post"
      by blast
    show ?thesis
    proof (cases pre)
      case Nil
      from d have "best # rest = max_item best rest # post" unfolding Nil append_Nil .
      then have b: "max_item best rest = best" and r: "post = rest" by (metis list.inject)+
      have "best # kv # rest = [] @ max_item best rest # (kv # post)" using b r by simp
      moreover have "list_all (\<lambda>x. snd x \<le> snd (max_item best rest)) (kv # post)"
        using q False b by simp
      moreover have "list_all (\<lambda>x. snd x < snd (max_item best rest)) []" by simp
      ultimately show ?thesis unfolding m by blast
    next
      case (Cons a pre')
      from d have "best # rest = a # (pre' @ max_item best rest # post)"
        unfolding Cons append_Cons .
      then have a: "a = best" and r: "rest = pre' @ max_item best rest # post"
        by (metis list.inject)+
      have "snd best < snd (max_item best rest)" using p Cons a by simp
      then have "snd kv < snd (max_item best rest)" using False by simp
      then have "list_all (\<lambda>x. snd x < snd (max_item best rest)) (best # kv # pre')"
        using p Cons a by simp
      moreover have "best # kv # rest = (best # kv # pre') @ max_item best rest # post"
        using r by simp
      ultimately show ?thesis unfolding m using q by blast
    qed
  qed
qed

lemma fold_err_scores:
  assumes "distinct (map fst acc @ map fst table)"
      and "list_all (\<lambda>(outc, patterns). patterns \<noteq> []) table"
  shows "fold_err (\<lambda>(outc, patterns) scores.
                       (let matches = count_matches patterns txt in
                        if length patterns = 0 then Inl ZeroDivisionError
                        else Inr (dict_set scores outc
                                    (real matches / real (length patterns)))))
             table acc =
         Inr (acc @ map (\<lambda>(outc, patterns).
                           (outc, real (count_matches patterns txt) / real (length patterns)))
                      table)"
  using assms
proof (induction table arbitrary: acc)
  case Nil
  then show ?case by simp
next
  case (Cons p table)
  obtain outc patterns where p: "p = (outc, patterns)" by (cases p)
  have fresh: "outc \<notin> set (map fst acc)" using Cons.prems(1) p by auto
  have ne: "patterns \<noteq> []" using Cons.prems(2) p by simp
  have d: "distinct (map fst (acc @ [(outc, real (count_matches patterns txt) / real (length patterns))])
                     @ map fst table)"
    using Cons.prems(1) p by auto
  have r: "list_all (\<lambda>(outc, patterns). patterns \<noteq> []) table" using Cons.prems(2) by simp
  show ?case
    using Cons.IH [OF d r] ne by (simp add: p dict_set_fresh [OF fresh])
qed

text \<open>
  C7. For every input text and every table of outcome patterns (a dictionary: distinct
  category names) whose categories each have at least one pattern,
  \<open>classify_outcome\<close> returns: for the empty table \<open>("unknown", 0.0)\<close>; otherwise a
  category and its score, where the score of a category is the number of its patterns that
  match the lower-cased text divided by the number of its patterns, every category
  declared earlier has a strictly lower score and every category declared later has a
  score that is not higher. The analyzer's own table \<open>outcome_patterns\<close> is such a table.
\<close>

theorem classify_outcome_highest_score:
  assumes "distinct (map fst table)" and "list_all (\<lambda>(outc, patterns). patterns \<noteq> []) table"
  shows "(table = [] \<longrightarrow> classify_outcome_with table text = Inr (''unknown'', 0)) \<and>
         (table \<noteq> [] \<longrightarrow>
            (\<exists>c s pre post. classify_outcome_with table text = Inr (c, s) \<and>
               category_scores table text = pre @ (c, s) # post \<and>
               list_all (\<lambda>kv. snd kv < s) pre \<and> list_all (\<lambda>kv. snd kv \<le> s) post))"
proof -
  have sc: "fold_err (\<lambda>(outc, patterns) scores.
                       (let matches = count_matches patterns (lower text) in
                        if length patterns = 0 then Inl ZeroDivisionError
                        else Inr (dict_set scores outc
                                    (real matches / real (length patterns)))))
             table [] = Inr (category_scores table text)"
    using fold_err_scores [of "[]" table "lower text"] assms
    by (simp add: category_scores_def)
  have c: "classify_outcome_with table text =
        (case category_scores table text of
           [] \<Rightarrow> Inr (''unknown'', 0)
         | kv # rest \<Rightarrow> Inr (max_item kv rest))"
    unfolding classify_outcome_with_def Let_def sc [unfolded Let_def] by simp
  have 1: "classify_outcome_with table text = Inr (''unknown'', 0)" if "table = []"
    unfolding c using that by (simp add: category_scores_def)
  have 2: "\<exists>c s pre post. classify_outcome_with table text = Inr (c, s) \<and>
               category_scores table text = pre @ (c, s) # post \<and>
               list_all (\<lambda>kv. snd kv < s) pre \<and> list_all (\<lambda>kv. snd kv \<le> s) post"
    if "table \<noteq> []"
  proof -
    from that obtain kv rest where k: "category_scores table text = kv # rest"
      by (cases "category_scores table text") (auto simp: category_scores_def)
    obtain cc s where m: "max_item kv rest = (cc, s)" by (cases "max_item kv rest")
    from max_item_split [of kv rest] obtain pre post where
      "kv # rest = pre @ (cc, s) # post"
      "list_all (\<lambda>x. snd x < s) pre" "list_all (\<lambda>x. snd x \<le> s) post"
      unfolding m by auto
    moreover have "classify_outcome_with table text = Inr (cc, s)"
      unfolding c k using m by simp
    ultimately show ?thesis unfolding k by blast
  qed
  from 1 2 show ?thesis by blast
qed


theorem classify_outcome_highest_score_witness:
  "distinct (map fst outcome_patterns) \<and>
   list_all (\<lambda>(outc, patterns). patterns \<noteq> []) outcome_patterns \<and>
   outcome_patterns \<noteq> [] \<and>
   classify_outcome ''Fraud alert and wrong address'' = Inr (''fraud'', 1 / 5) \<and>
   (\<exists>c s pre post.
      classify_outcome_with outcome_patterns ''Fraud alert and wrong address'' = Inr (c, s) \<and>
      category_scores outcome_patterns ''Fraud alert and wrong address'' = pre @ (c, s) # post \<and>
      list_all (\<lambda>kv. snd kv < s) pre \<and> list_all (\<lambda>kv. snd kv \<le> s) post) \<and>
   distinct (map fst ([] :: (string \<times> seg list list) list)) \<and>
   list_all (\<lambda>(outc, patterns). patterns \<noteq> []) ([] :: (string \<times> seg list list) list) \<and>
   classify_outcome_with [] ''Fraud alert and wrong address'' = Inr (''unknown'', 0)"
proof -
  have h1: "distinct (map fst outcome_patterns)" by code_simp
  have h2: "list_all (\<lambda>(outc, patterns). patterns \<noteq> []) outcome_patterns" by code_simp
  have h3: "outcome_patterns \<noteq> []" by (simp add: outcome_patterns_def)
  have e: "classify_outcome ''Fraud alert and wrong address'' = Inr (''fraud'', 1 / 5)"
    by code_simp
  have g1: "distinct (map fst ([] :: (string \<times> seg list list) list))" by simp
  have g2: "list_all (\<lambda>(outc, patterns). patterns \<noteq> []) ([] :: (string \<times> seg list list) list)"
    by simp
  show ?thesis
    using h1 h2 h3 e g1 g2
      classify_outcome_highest_score [OF h1 h2, of "''Fraud alert and wrong address''"]
      classify_outcome_highest_score [OF g1 g2, of "''Fraud alert and wrong address''"]
    by blast
qed

section \<open>Properties of the loader\<close>

lemma map_fst_dict_set:
  "map fst (dict_set d k v) = (if k \<in> set (map fst d) then map fst d else map fst d @ [k])"
  by (auto simp: dict_set_def case_prod_beta intro!: map_idI)

lemma load_entry_keys:
  "map fst (loaded_by_id (load_entry ic self)) =
     (case entry_key ic of
        None \<Rightarrow> map fst (loaded_by_id self)
      | Some k \<Rightarrow> if k \<in> set (map fst (loaded_by_id self)) then map fst (loaded_by_id self)
                  else map fst (loaded_by_id self) @ [k])"
  by (auto simp: load_entry_def entry_key_def map_fst_dict_set split: sum.splits)

lemma fold_load_entry_keys:
  "set (map fst (loaded_by_id (fold load_entry ics self))) =
     set (map fst (loaded_by_id self)) \<union> set (List.map_filter entry_key ics) \<and>
   (distinct (map fst (loaded_by_id self)) \<longrightarrow>
      distinct (map fst (loaded_by_id (fold load_entry ics self))))"
proof (induction ics arbitrary: self)
  case Nil
  then show ?case by simp
next
  case (Cons ic ics)
  show ?case
  proof (cases "entry_key ic")
    case None
    then have "map fst (loaded_by_id (load_entry ic self)) = map fst (loaded_by_id self)"
      by (simp add: load_entry_keys)
    then show ?thesis
      using Cons.IH [of "load_entry ic self"] None by simp
  next
    case (Some k)
    then have "set (map fst (loaded_by_id (load_entry ic self))) =
               insert k (set (map fst (loaded_by_id self)))"
      and "distinct (map fst (loaded_by_id self)) \<Longrightarrow>
           distinct (map fst (loaded_by_id (load_entry ic self)))"
      by (auto simp: load_entry_keys)
    then show ?thesis
      using Cons.IH [of "load_entry ic self"] Some by auto
  qed
qed

text \<open>
  C5 as the code has it. Whatever the entries are, \<open>load_conversations\<close> does not
  raise once the conversations extracted from the raw input can be iterated: an entry
  that fails to parse, or whose id cannot be a dictionary key, is skipped and loading
  continues. The value returned is the number of transcripts in the store after the call:
  the number of distinct ids among those stored before the call and those of the entries
  this call loaded. It is the number of entries this call loaded when the store was empty
  before the call and the loaded ids are pairwise distinct.
\<close>

theorem load_conversations_count:
  assumes "py_iter (extract_conversations data) = Inr entries"
      and "distinct (map fst (loaded_by_id self))"
  shows "\<exists>n self'. load_conversations self data = Inr (n, self') \<and>
           n = length (loaded_by_id self') \<and>
           distinct (map fst (loaded_by_id self')) \<and>
           set (map fst (loaded_by_id self')) =
             set (map fst (loaded_by_id self)) \<union> set (loaded_keys entries) \<and>
           n = card (set (map fst (loaded_by_id self)) \<union> set (loaded_keys entries)) \<and>
           (loaded_by_id self = [] \<and> distinct (loaded_keys entries) \<longrightarrow>
              n = length (loaded_keys entries))"
proof -
  define self' where "self' = fold load_entry (enumerate 0 entries) self"
  define n where "n = length (loaded_by_id self')"
  have l: "load_conversations self data = Inr (n, self')"
    unfolding load_conversations_def Let_def assms(1) n_def self'_def by simp
  have k: "set (map fst (loaded_by_id self')) =
             set (map fst (loaded_by_id self)) \<union> set (loaded_keys entries)"
    and d: "distinct (map fst (loaded_by_id self'))"
    using fold_load_entry_keys [of "enumerate 0 entries" self] assms(2)
    unfolding self'_def loaded_keys_def by blast+
  have "n = length (map fst (loaded_by_id self'))" unfolding n_def by simp
  also have "\<dots> = card (set (map fst (loaded_by_id self')))"
    using d by (rule distinct_card [symmetric])
  finally have c: "n = card (set (map fst (loaded_by_id self)) \<union> set (loaded_keys entries))"
    unfolding k .
  have e: "n = length (loaded_keys entries)"
    if "loaded_by_id self = []" "distinct (loaded_keys entries)"
    using c that by (simp add: distinct_card)
  from l k d c e show ?thesis unfolding n_def by blast
qed

theorem load_conversations_count_witness:
  "py_iter (extract_conversations
      (JObj [(''transcripts'', JArr [entry_a, JNum 5, entry_bad_intent, entry_b])])) =
     Inr [entry_a, JNum 5, entry_bad_intent, entry_b] \<and>
   distinct (map fst (loaded_by_id \<lparr> loaded_by_id = [] \<rparr>)) \<and>
   loaded_by_id \<lparr> loaded_by_id = [] \<rparr> = [] \<and>
   loaded_keys [entry_a, JNum 5, entry_bad_intent, entry_b] = [KStr ''a'', KStr ''b''] \<and>
   (\<exists>n self'. load_conversations \<lparr> loaded_by_id = [] \<rparr>
               (JObj [(''transcripts'', JArr [entry_a, JNum 5, entry_bad_intent, entry_b])]) =
             Inr (n, self') \<and> n = 2 \<and>
           set (map fst (loaded_by_id self')) = {KStr ''a'', KStr ''b''})"
proof -
  have h1: "py_iter (extract_conversations
      (JObj [(''transcripts'', JArr [entry_a, JNum 5, entry_bad_intent, entry_b])])) =
     Inr [entry_a, JNum 5, entry_bad_intent, entry_b]"
    by (simp add: extract_conversations_def dict_get_def)
  have h2: "distinct (map fst (loaded_by_id \<lparr> loaded_by_id = [] \<rparr>))" by simp
  have h3: "loaded_by_id \<lparr> loaded_by_id = [] \<rparr> = []" by simp
  have ks: "loaded_keys [entry_a, JNum 5, entry_bad_intent, entry_b] = [KStr ''a'', KStr ''b'']"
    by code_simp
  have dk: "distinct (loaded_keys [entry_a, JNum 5, entry_bad_intent, entry_b])"
    unfolding ks by simp
  from load_conversations_count [OF h1 h2]
  obtain n self' where r: "load_conversations \<lparr> loaded_by_id = [] \<rparr>
               (JObj [(''transcripts'', JArr [entry_a, JNum 5, entry_bad_intent, entry_b])]) =
             Inr (n, self')"
    and s: "set (map fst (loaded_by_id self')) =
            set (map fst (loaded_by_id \<lparr> loaded_by_id = [] \<rparr>)) \<union>
            set (loaded_keys [entry_a, JNum 5, entry_bad_intent, entry_b])"
    and n: "loaded_by_id \<lparr> loaded_by_id = [] \<rparr> = [] \<and>
            distinct (loaded_keys [entry_a, JNum 5, entry_bad_intent, entry_b]) \<longrightarrow>
            n = length (loaded_keys [entry_a, JNum 5, entry_bad_intent, entry_b])"
    by blast
  have "n = 2" using n h3 dk unfolding ks by simp
  moreover have "set (map fst (loaded_by_id self')) = {KStr ''a'', KStr ''b''}"
    using s unfolding ks by simp
  ultimately show ?thesis using h1 h2 h3 ks r by blast
qed

text \<open>
  C5 as stated fails for a call on a retriever that has loaded before: after "a" has been
  loaded, a call that loads the single entry "b" returns 2.
\<close>

theorem load_count_counterexample:
  "map_sum id fst (then_load (load_conversations \<lparr> loaded_by_id = [] \<rparr> (JArr [entry_a]))
                     (JArr [entry_b])) = Inr 2 \<and>
   length (loaded_keys [entry_b]) = 1"
  by code_simp


end
